theory Spec2Isabelle
  imports Main "HOL-Library.Word"
begin

section \<open>JavaScript strings\<close>

text \<open>
  A JavaScript string is a sequence of 16-bit UTF-16 code units; \<open>length\<close>, \<open>split\<close>,
  \<open>startsWith\<close>, \<open>includes\<close> and the regular expressions of the server (none has the
  \<open>u\<close> flag) all work on code units. Program literals are ASCII and written \<open>str ''...''\<close>.
\<close>

type_synonym jschar = "16 word"
type_synonym jsstring = "jschar list"
type_synonym bytes = "8 word list"

definition str :: "string \<Rightarrow> jsstring" where
  "str s = map (\<lambda>c. of_nat (of_char c)) s"

text \<open>\<open>s.startsWith(p)\<close> and \<open>s.includes(p)\<close>.\<close>

fun startsWith :: "jsstring \<Rightarrow> jsstring \<Rightarrow> bool" where
  "startsWith s [] = True"
| "startsWith [] (p # ps) = False"
| "startsWith (c # cs) (p # ps) = (c = p \<and> startsWith cs ps)"

fun includesJS :: "jsstring \<Rightarrow> jsstring \<Rightarrow> bool" where
  "includesJS [] p = (p = [])"
| "includesJS (c # cs) p = (startsWith (c # cs) p \<or> includesJS cs p)"

section \<open>Errors and the upstream services\<close>

text \<open>
  Every \<open>throw\<close> of the server is a constructor: \<open>BookNotFound\<close> is
  \<open>Error("Book not found")\<close>, \<open>NoReadableFormat\<close> is \<open>Error("No readable format found")\<close>,
  \<open>FetchBookFileFailed\<close> is \<open>Error("Failed to fetch book file")\<close>, \<open>FetchFailed\<close> is the
  error of \<open>fetchJson\<close> on a response that is not ok, \<open>PageNotFound\<close> is
  \<open>Error("Page not found")\<close>, \<open>IndexPageNotResolvable\<close> is \<open>Error("This looks like an
  index/list page. Please choose a specific work page.")\<close>, \<open>UnknownSource\<close> is
  \<open>Error("Unknown source")\<close>. \<open>URIError\<close> is raised by \<open>encodeURIComponent\<close> and
  \<open>decodeURIComponent\<close>; \<open>UpstreamRejected\<close> stands for a rejected \<open>fetch\<close> or a
  body that does not parse.
\<close>

datatype error =
    BookNotFound
  | NoReadableFormat
  | FetchBookFileFailed
  | FetchFailed
  | PageNotFound
  | IndexPageNotResolvable
  | UnknownSource
  | URIError
  | UpstreamRejected

text \<open>What one HTTP request gives: a rejected promise, a response with \<open>ok = false\<close>,
  or the parsed body of an ok response.\<close>

datatype 'a response = Rejected | NotOk | Ok 'a

text \<open>
  A book object of the catalog API. \<open>book_id\<close> is the identifier as the template literal
  prints it; \<open>book_title\<close> is \<open>None\<close> where the object has no title; the names of the
  authors (an absent name joins as the empty string), the language codes, and the
  \<open>formats\<close> object as the list of its keys and URLs.
\<close>

record book =
  book_id :: jsstring
  book_title :: "jsstring option"
  book_authors :: "jsstring list"
  book_languages :: "jsstring list"
  book_formats :: "(jsstring \<times> jsstring) list"

record resolved =
  file_title :: jsstring
  file_mime :: jsstring
  file_ext :: jsstring
  file_buffer :: bytes

text \<open>
  \<open>trim\<close> strips WhiteSpace and LineTerminator code units from both ends; the class \<open>\s\<close>
  of a regular expression is the same set.
\<close>

definition isWhiteSpace :: "jschar \<Rightarrow> bool" where
  "isWhiteSpace c =
     (let n = unat c in
        (9 \<le> n \<and> n \<le> 13) \<or> n = 0x20 \<or> n = 0xA0 \<or> n = 0x1680 \<or>
        (0x2000 \<le> n \<and> n \<le> 0x200A) \<or> n = 0x2028 \<or> n = 0x2029 \<or> n = 0x202F \<or>
        n = 0x205F \<or> n = 0x3000 \<or> n = 0xFEFF)"

definition trim :: "jsstring \<Rightarrow> jsstring" where
  "trim s = rev (dropWhile isWhiteSpace (rev (dropWhile isWhiteSpace s)))"

text \<open>
  \<open>s.split(d)\<close> for a one-character separator: the pieces between the separators, in
  order; \<open>"".split(d)\<close> is \<open>[""]\<close>. The result is never empty, so the first branch of
  the \<open>case\<close> is never taken.
\<close>

fun splitOn :: "jschar \<Rightarrow> jsstring \<Rightarrow> jsstring list" where
  "splitOn d [] = [[]]"
| "splitOn d (c # cs) =
     (if c = d then [] # splitOn d cs
      else (case splitOn d cs of
              [] \<Rightarrow> [[c]]
            | piece # pieces \<Rightarrow> (c # piece) # pieces))"

text \<open>\<open>s.replace(/c/g, r)\<close> for a one-character pattern.\<close>

definition replaceChar :: "jschar \<Rightarrow> jsstring \<Rightarrow> jsstring \<Rightarrow> jsstring" where
  "replaceChar c r s = concat (map (\<lambda>x. if x = c then r else [x]) s)"

section \<open>encodeURIComponent and decodeURIComponent\<close>

text \<open>
  The two functions of the ECMAScript standard library that the identifier codec and the
  header builder call. \<open>encodeURIComponent\<close> keeps the unreserved characters
  (letters, digits and \<open>- _ . ! ~ * ' ( )\<close>), and writes every other code point as the
  \<open>%XX\<close> escapes of its UTF-8 octets; it raises URIError (here \<open>None\<close>) on an unpaired
  surrogate. \<open>decodeURIComponent\<close> reverses every escape and raises URIError on a
  malformed escape or on octets that are not the UTF-8 encoding of a code point.
\<close>

definition isUnreserved :: "jschar \<Rightarrow> bool" where
  "isUnreserved c =
     (let n = unat c in
        (0x41 \<le> n \<and> n \<le> 0x5A) \<or> (0x61 \<le> n \<and> n \<le> 0x7A) \<or> (0x30 \<le> n \<and> n \<le> 0x39) \<or>
        n = 0x2D \<or> n = 0x5F \<or> n = 0x2E \<or> n = 0x21 \<or> n = 0x7E \<or> n = 0x2A \<or>
        n = 0x27 \<or> n = 0x28 \<or> n = 0x29)"

definition isLeadSurrogate :: "jschar \<Rightarrow> bool" where
  "isLeadSurrogate c = (0xD800 \<le> unat c \<and> unat c \<le> 0xDBFF)"

definition isTrailSurrogate :: "jschar \<Rightarrow> bool" where
  "isTrailSurrogate c = (0xDC00 \<le> unat c \<and> unat c \<le> 0xDFFF)"

definition pairCodePoint :: "jschar \<Rightarrow> jschar \<Rightarrow> nat" where
  "pairCodePoint hi lo = 0x10000 + (unat hi - 0xD800) * 0x400 + (unat lo - 0xDC00)"

text \<open>The UTF-8 octets of a code point.\<close>

definition utf8 :: "nat \<Rightarrow> nat list" where
  "utf8 cp =
     (if cp < 0x80 then [cp]
      else if cp < 0x800 then [0xC0 + cp div 0x40, 0x80 + cp mod 0x40]
      else if cp < 0x10000 then
        [0xE0 + cp div 0x1000, 0x80 + cp div 0x40 mod 0x40, 0x80 + cp mod 0x40]
      else
        [0xF0 + cp div 0x40000, 0x80 + cp div 0x1000 mod 0x40,
         0x80 + cp div 0x40 mod 0x40, 0x80 + cp mod 0x40])"

definition hexDigit :: "nat \<Rightarrow> jschar" where
  "hexDigit n = of_nat (if n < 10 then 0x30 + n else 0x37 + n)"

definition percent :: "nat list \<Rightarrow> jsstring" where
  "percent octets = concat (map (\<lambda>b. [0x25, hexDigit (b div 16), hexDigit (b mod 16)]) octets)"

fun encodeURIComponent :: "jsstring \<Rightarrow> jsstring option" where
  "encodeURIComponent [] = Some []"
| "encodeURIComponent (c # cs) =
     (if isUnreserved c then map_option ((#) c) (encodeURIComponent cs)
      else if isLeadSurrogate c then
        (case cs of
           [] \<Rightarrow> None
         | d # ds \<Rightarrow>
             if isTrailSurrogate d
             then map_option ((@) (percent (utf8 (pairCodePoint c d)))) (encodeURIComponent ds)
             else None)
      else if isTrailSurrogate c then None
      else map_option ((@) (percent (utf8 (unat c)))) (encodeURIComponent cs))"

definition hexValue :: "jschar \<Rightarrow> nat option" where
  "hexValue c =
     (let n = unat c in
        if 0x30 \<le> n \<and> n \<le> 0x39 then Some (n - 0x30)
        else if 0x41 \<le> n \<and> n \<le> 0x46 then Some (n - 0x37)
        else if 0x61 \<le> n \<and> n \<le> 0x66 then Some (n - 0x57)
        else None)"

text \<open>One escape \<open>%XX\<close> at the head of a string: its octet and the rest.\<close>

fun readOctet :: "jsstring \<Rightarrow> (nat \<times> jsstring) option" where
  "readOctet (p # h1 # h2 # rest) =
     (if p = 0x25 then
        (case (hexValue h1, hexValue h2) of
           (Some a, Some b) \<Rightarrow> Some (16 * a + b, rest)
         | _ \<Rightarrow> None)
      else None)"
| "readOctet _ = None"

definition isContinuation :: "nat \<Rightarrow> bool" where
  "isContinuation b = (0x80 \<le> b \<and> b < 0xC0)"

text \<open>The \<open>n - 1\<close> continuation escapes after a leading octet.\<close>

fun readContinuation :: "nat \<Rightarrow> jsstring \<Rightarrow> (nat list \<times> jsstring) option" where
  "readContinuation 0 s = Some ([], s)"
| "readContinuation (Suc n) s =
     (case readOctet s of
        None \<Rightarrow> None
      | Some (b, rest) \<Rightarrow>
          if isContinuation b
          then map_option (\<lambda>(bs, r). (b # bs, r)) (readContinuation n rest)
          else None)"

text \<open>The number of leading 1 bits of an octet from \<open>0x80\<close> to \<open>0xFF\<close>.\<close>

definition leadingOnes :: "nat \<Rightarrow> nat" where
  "leadingOnes b =
     (if b < 0xC0 then 1 else if b < 0xE0 then 2 else if b < 0xF0 then 3
      else if b < 0xF8 then 4 else 5)"

text \<open>
  The code point of a sequence of two to four octets, when the sequence is its valid UTF-8
  encoding: continuation octets in range, the shortest form, no surrogate, at most
  \<open>0x10FFFF\<close>.
\<close>

definition utf8Decode :: "nat list \<Rightarrow> nat option" where
  "utf8Decode octets =
     (case octets of
        [b0, b1] \<Rightarrow>
          (let cp = (b0 - 0xC0) * 0x40 + (b1 - 0x80)
           in if isContinuation b1 \<and> 0x80 \<le> cp then Some cp else None)
      | [b0, b1, b2] \<Rightarrow>
          (let cp = (b0 - 0xE0) * 0x1000 + (b1 - 0x80) * 0x40 + (b2 - 0x80)
           in if isContinuation b1 \<and> isContinuation b2 \<and> 0x800 \<le> cp \<and>
                 \<not> (0xD800 \<le> cp \<and> cp \<le> 0xDFFF)
              then Some cp else None)
      | [b0, b1, b2, b3] \<Rightarrow>
          (let cp = (b0 - 0xF0) * 0x40000 + (b1 - 0x80) * 0x1000 + (b2 - 0x80) * 0x40 + (b3 - 0x80)
           in if isContinuation b1 \<and> isContinuation b2 \<and> isContinuation b3 \<and>
                 0x10000 \<le> cp \<and> cp \<le> 0x10FFFF
              then Some cp else None)
      | _ \<Rightarrow> None)"

text \<open>The UTF-16 code units of a code point.\<close>

definition utf16 :: "nat \<Rightarrow> jsstring" where
  "utf16 cp =
     (if cp < 0x10000 then [of_nat cp]
      else [of_nat (0xD800 + (cp - 0x10000) div 0x400), of_nat (0xDC00 + (cp - 0x10000) mod 0x400)])"

lemma readOctet_length:
  "readOctet s = Some (b, rest) \<Longrightarrow> length rest < length s"
  by (induction s rule: readOctet.induct) (auto split: if_splits option.splits)

lemma readContinuation_length:
  "readContinuation n s = Some (bs, rest) \<Longrightarrow> length rest \<le> length s"
proof (induction n arbitrary: s bs)
  case 0
  then show ?case by simp
next
  case (Suc n)
  then show ?case
    by (fastforce split: option.splits if_splits prod.splits dest: readOctet_length)
qed

function decodeURIComponent :: "jsstring \<Rightarrow> jsstring option" where
  "decodeURIComponent [] = Some []"
| "decodeURIComponent (c # cs) =
     (if c \<noteq> 0x25 then map_option ((#) c) (decodeURIComponent cs)
      else
        (case readOctet (c # cs) of
           None \<Rightarrow> None
         | Some (b, rest) \<Rightarrow>
             if b < 0x80 then map_option ((#) (of_nat b)) (decodeURIComponent rest)
             else if leadingOnes b = 1 \<or> 4 < leadingOnes b then None
             else
               (case readContinuation (leadingOnes b - 1) rest of
                  None \<Rightarrow> None
                | Some (bs, rest') \<Rightarrow>
                    (case utf8Decode (b # bs) of
                       None \<Rightarrow> None
                     | Some cp \<Rightarrow> map_option ((@) (utf16 cp)) (decodeURIComponent rest')))))"
  by pat_completeness auto
termination
proof (relation "measure length")
  show "wf (measure length)" by simp
next
  fix c :: jschar and cs
  show "(cs, c # cs) \<in> measure length" by simp
next
  fix c :: jschar and cs x2 x y
  assume "readOctet (c # cs) = Some x2" "(x, y) = x2"
  then have "length y < length (c # cs)"
    using readOctet_length [of "c # cs" x y] by simp
  then show "(y, c # cs) \<in> measure length" by simp
next
  fix c :: jschar and cs x2 x y x2a xa ya x2b
  assume "readOctet (c # cs) = Some x2" "(x, y) = x2"
    "readContinuation (leadingOnes x - 1) y = Some x2a" "(xa, ya) = x2a"
  then have "length y < length (c # cs)" "length ya \<le> length y"
    using readOctet_length [of "c # cs" x y]
      readContinuation_length [of "leadingOnes x - 1" y xa ya] by simp_all
  then show "(ya, c # cs) \<in> measure length" by simp
qed

text \<open>\<open>String.prototype.isWellFormed\<close>: no unpaired surrogate.\<close>

fun wellFormed :: "jsstring \<Rightarrow> bool" where
  "wellFormed [] = True"
| "wellFormed (c # cs) =
     (if isLeadSurrogate c then
        (case cs of [] \<Rightarrow> False | d # ds \<Rightarrow> isTrailSurrogate d \<and> wellFormed ds)
      else \<not> isTrailSurrogate c \<and> wellFormed cs)"

section \<open>Numbers (parseInt and the arithmetic of the page offset)\<close>

text \<open>
  The numbers of the search are integer-valued: a Number is \<open>NaN\<close>, an infinity, or a finite
  double holding an integer. \<open>roundDouble n\<close> is the Number value of the integer \<open>n\<close>: \<open>n\<close>
  itself up to 53 bits, otherwise the nearest multiple of the unit in the last place, ties to
  the even significand, and an infinity from \<open>2^1024\<close> on.
\<close>

datatype number = NaN | PosInfinity | NegInfinity | Finite int

text \<open>The number of binary digits of a positive integer.\<close>

function bitLength :: "int \<Rightarrow> nat" where
  "bitLength n = (if n \<le> 0 then 0 else Suc (bitLength (n div 2)))"
  by auto

termination bitLength
  by (relation "measure nat") auto

declare bitLength.simps [simp del]

definition roundDouble :: "int \<Rightarrow> number" where
  "roundDouble n =
     (let a = \<bar>n\<bar>
      in if a < 2 ^ 53 then Finite n
         else
           (let e = bitLength a - 53;
                q = a div 2 ^ e;
                r = a mod 2 ^ e;
                half = 2 ^ (e - 1);
                q' = (if half < r \<or> (r = half \<and> odd q) then q + 1 else q);
                v = q' * 2 ^ e
            in if 2 ^ 1024 \<le> v then (if n < 0 then NegInfinity else PosInfinity)
               else Finite (if n < 0 then - v else v)))"

text \<open>
  \<open>parseInt(v, 10)\<close> on the string of \<open>v\<close>: leading white space is skipped, one sign is
  read, then the longest run of decimal digits; no digit gives \<open>NaN\<close>.
\<close>

definition isDigit :: "jschar \<Rightarrow> bool" where
  "isDigit c \<longleftrightarrow> 0x30 \<le> unat c \<and> unat c \<le> 0x39"

definition digitsValue :: "jsstring \<Rightarrow> int" where
  "digitsValue ds = foldl (\<lambda>a c. 10 * a + (uint c - 0x30)) 0 ds"

definition parseInt :: "jsstring \<Rightarrow> number" where
  "parseInt s =
     (let t = dropWhile isWhiteSpace s;
          negative = (case t of [] \<Rightarrow> False | c # r \<Rightarrow> c = 0x2D);
          u = (case t of [] \<Rightarrow> [] | c # r \<Rightarrow> if c = 0x2D \<or> c = 0x2B then r else t);
          z = takeWhile isDigit u
      in if z = [] then NaN
         else roundDouble (if negative then - digitsValue z else digitsValue z))"

text \<open>\<open>x + k\<close>, \<open>x * k\<close> for a positive \<open>k\<close>, and \<open>x < k\<close>, for a Number \<open>x\<close> and an
  integer \<open>k\<close>.\<close>

fun plusInt :: "number \<Rightarrow> int \<Rightarrow> number" where
  "plusInt (Finite a) k = roundDouble (a + k)"
| "plusInt NaN k = NaN"
| "plusInt PosInfinity k = PosInfinity"
| "plusInt NegInfinity k = NegInfinity"

fun timesPos :: "number \<Rightarrow> int \<Rightarrow> number" where
  "timesPos (Finite a) k = roundDouble (a * k)"
| "timesPos NaN k = NaN"
| "timesPos PosInfinity k = PosInfinity"
| "timesPos NegInfinity k = NegInfinity"

fun lessInt :: "number \<Rightarrow> int \<Rightarrow> bool" where
  "lessInt (Finite a) k = (a < k)"
| "lessInt NaN k = False"
| "lessInt PosInfinity k = False"
| "lessInt NegInfinity k = True"

section \<open>Identifier codec (makeId, parseId)\<close>

text \<open>
  \<open>makeId(source, raw)\<close> builds \<open>gutenberg:<raw>\<close>, \<open>wsrc-ru:<encodeURIComponent(raw)>\<close>
  or \<open>wsrc-ua:<encodeURIComponent(raw)>\<close>; for \<open>gutenberg\<close> the template literal writes
  the book number as its decimal string, here the string \<open>raw\<close>.
\<close>

definition makeId :: "jsstring \<Rightarrow> jsstring \<Rightarrow> error + jsstring" where
  "makeId source raw =
     (if source = str ''gutenberg'' then Inr (str ''gutenberg:'' @ raw)
      else if source = str ''wsrc-ru'' then
        (case encodeURIComponent raw of
           None \<Rightarrow> Inl URIError
         | Some e \<Rightarrow> Inr (str ''wsrc-ru:'' @ e))
      else if source = str ''wsrc-ua'' then
        (case encodeURIComponent raw of
           None \<Rightarrow> Inl URIError
         | Some e \<Rightarrow> Inr (str ''wsrc-ua:'' @ e))
      else Inl UnknownSource)"

record parsed =
  parsed_source :: jsstring
  parsed_value :: jsstring

text \<open>
  \<open>parseId(id)\<close>: \<open>const [prefix, rest] = id.split(":")\<close> takes the first two pieces of
  the split at every colon; \<open>rest\<close> is undefined when there is one piece only. The result
  \<open>None\<close> is JavaScript's \<open>null\<close>.
\<close>

definition parseId :: "jsstring \<Rightarrow> error + parsed option" where
  "parseId ident =
     (if ident = [] then Inr None
      else
        (let parts = splitOn 0x3A ident; prefix = hd parts
         in case tl parts of
              [] \<Rightarrow> Inr None
            | rest # _ \<Rightarrow>
                if rest = [] then Inr None
                else if prefix = str ''gutenberg'' then
                  Inr (Some \<lparr> parsed_source = str ''gutenberg'', parsed_value = rest \<rparr>)
                else if prefix = str ''wsrc-ru'' then
                  (case decodeURIComponent rest of
                     None \<Rightarrow> Inl URIError
                   | Some v \<Rightarrow> Inr (Some \<lparr> parsed_source = str ''wsrc-ru'', parsed_value = v \<rparr>))
                else if prefix = str ''wsrc-ua'' then
                  (case decodeURIComponent rest of
                     None \<Rightarrow> Inl URIError
                   | Some v \<Rightarrow> Inr (Some \<lparr> parsed_source = str ''wsrc-ua'', parsed_value = v \<rparr>))
                else Inr None))"

section \<open>Download headers (asciiFallbackName, rfc5987Encode, setDownloadHeaders)\<close>

definition isAscii :: "jschar \<Rightarrow> bool" where
  "isAscii c = (unat c \<le> 0x7F)"

text \<open>The class \<open>[a-zA-Z0-9._-]\<close>.\<close>

definition isNameChar :: "jschar \<Rightarrow> bool" where
  "isNameChar c =
     (let n = unat c in
        (0x61 \<le> n \<and> n \<le> 0x7A) \<or> (0x41 \<le> n \<and> n \<le> 0x5A) \<or> (0x30 \<le> n \<and> n \<le> 0x39) \<or>
        n = 0x2E \<or> n = 0x5F \<or> n = 0x2D)"

text \<open>
  \<open>.replace(/[^a-zA-Z0-9._-]+/g, "_")\<close>: every maximal run of characters outside the class
  becomes one underscore; the flag says whether the scan is inside such a run.
\<close>

fun collapseRuns :: "bool \<Rightarrow> jsstring \<Rightarrow> jsstring" where
  "collapseRuns inRun [] = []"
| "collapseRuns inRun (c # cs) =
     (if isNameChar c then c # collapseRuns False cs
      else if inRun then collapseRuns True cs
      else 0x5F # collapseRuns True cs)"

text \<open>\<open>.replace(/^_+|_+$/g, "")\<close>: the underscores at the start and at the end go.\<close>

definition stripUnderscores :: "jsstring \<Rightarrow> jsstring" where
  "stripUnderscores s = rev (dropWhile (\<lambda>c. c = 0x5F) (rev (dropWhile (\<lambda>c. c = 0x5F) s)))"

definition withDot :: "jsstring \<Rightarrow> jsstring" where
  "withDot ext = (if startsWith ext (str ''.'') then ext else str ''.'' @ ext)"

text \<open>
  \<open>normalize("NFKD")\<close> is a table of the Unicode runtime; it is the parameter \<open>nfkd\<close>.
\<close>

definition asciiFallbackName :: "(jsstring \<Rightarrow> jsstring) \<Rightarrow> jsstring \<Rightarrow> jsstring \<Rightarrow> jsstring" where
  "asciiFallbackName nfkd name ext =
     (let base = stripUnderscores (collapseRuns False (filter isAscii
                   (nfkd (if name \<noteq> [] then name else str ''book''))));
          safeBase = (if base \<noteq> [] then base else str ''book'');
          safeExt = withDot ext
      in safeBase @ safeExt)"

text \<open>The four \<open>.replace\<close> calls of \<open>rfc5987Encode\<close>, in the order of the source.\<close>

definition rfcEscape :: "jsstring \<Rightarrow> jsstring" where
  "rfcEscape e =
     replaceChar 0x2A (str ''%2A'')
       (replaceChar 0x29 (str ''%29'')
         (replaceChar 0x28 (str ''%28'')
           (replaceChar 0x27 (str ''%27'') e)))"

definition rfc5987Encode :: "jsstring \<Rightarrow> jsstring option" where
  "rfc5987Encode s = map_option rfcEscape (encodeURIComponent s)"

text \<open>The value of the extended parameter: \<open>encoded\<close> in \<open>setDownloadHeaders\<close>.\<close>

definition encodedFilename :: "jsstring \<Rightarrow> jsstring \<Rightarrow> jsstring option" where
  "encodedFilename filenameUnicode ext =
     rfc5987Encode ((if filenameUnicode \<noteq> [] then filenameUnicode else str ''book'') @ withDot ext)"

text \<open>
  The header value \<open>cd\<close>:
  \<open>attachment; filename="<fallback>"; filename*=UTF-8''<encoded>\<close>
  (\<open>0x22\<close> is the double quote, \<open>0x27\<close> the single quote).
\<close>

definition contentDisposition :: "(jsstring \<Rightarrow> jsstring) \<Rightarrow> jsstring \<Rightarrow> jsstring \<Rightarrow> error + jsstring" where
  "contentDisposition nfkd filenameUnicode ext =
     (let safeExt = withDot ext;
          fallback = asciiFallbackName nfkd filenameUnicode safeExt
      in case encodedFilename filenameUnicode ext of
           None \<Rightarrow> Inl URIError
         | Some encoded \<Rightarrow>
             Inr (str ''attachment; filename='' @ [0x22] @ fallback @ [0x22] @
                  str ''; filename*=UTF-8'' @ [0x27, 0x27] @ encoded))"

text \<open>The three headers that \<open>setDownloadHeaders\<close> sets on the response, in order.\<close>

definition setDownloadHeaders ::
  "(jsstring \<Rightarrow> jsstring) \<Rightarrow> jsstring \<Rightarrow> jsstring \<Rightarrow> jsstring \<Rightarrow> error + (jsstring \<times> jsstring) list" where
  "setDownloadHeaders nfkd filenameUnicode mimeType ext =
     (case contentDisposition nfkd filenameUnicode ext of
        Inl e \<Rightarrow> Inl e
      | Inr cd \<Rightarrow>
          Inr [(str ''Content-Type'', mimeType),
               (str ''Content-Disposition'', cd),
               (str ''X-Content-Type-Options'', str ''nosniff'')])"

definition isPrintableAscii :: "jschar \<Rightarrow> bool" where
  "isPrintableAscii c = (0x20 \<le> unat c \<and> unat c \<le> 0x7E)"

section \<open>Download from the catalog API (downloadGutenberg)\<close>

definition candidates :: "jsstring list" where
  "candidates =
     [str ''text/plain; charset=utf-8'',
      str ''text/plain'',
      str ''application/epub+zip'',
      str ''text/html; charset=utf-8'']"

text \<open>The \<open>for (const c of candidates)\<close> loop: the first candidate whose entry in
  \<open>formats\<close> is truthy (present and not the empty string) gives \<open>(url, mime)\<close>.\<close>

fun pickCandidate :: "(jsstring \<times> jsstring) list \<Rightarrow> jsstring list \<Rightarrow> (jsstring \<times> jsstring) option" where
  "pickCandidate formats [] = None"
| "pickCandidate formats (c # cs) =
     (case map_of formats c of
        Some u \<Rightarrow> if u \<noteq> [] then Some (u, c) else pickCandidate formats cs
      | None \<Rightarrow> pickCandidate formats cs)"

text \<open>The \<open>if / else if\<close> chain that labels the file: \<open>(outMime, ext)\<close>.\<close>

definition outLabel :: "jsstring \<Rightarrow> jsstring \<times> jsstring" where
  "outLabel m =
     (if includesJS m (str ''epub'') then (str ''application/epub+zip'', str ''epub'')
      else if includesJS m (str ''text/plain'') then (str ''text/plain; charset=utf-8'', str ''txt'')
      else if includesJS m (str ''text/html'') then (str ''text/plain; charset=utf-8'', str ''txt'')
      else (str ''application/octet-stream'', str ''bin''))"

definition downloadGutenberg ::
  "(jsstring \<Rightarrow> book response) \<Rightarrow> (jsstring \<Rightarrow> bytes response) \<Rightarrow> jsstring \<Rightarrow> error + resolved" where
  "downloadGutenberg fetchBook fetchFile gutenbergId =
     (case fetchBook gutenbergId of
        Rejected \<Rightarrow> Inl UpstreamRejected
      | NotOk \<Rightarrow> Inl BookNotFound
      | Ok book \<Rightarrow>
          (case pickCandidate (book_formats book) candidates of
             None \<Rightarrow> Inl NoReadableFormat
           | Some (url, m) \<Rightarrow>
               (case fetchFile url of
                  Rejected \<Rightarrow> Inl UpstreamRejected
                | NotOk \<Rightarrow> Inl FetchBookFileFailed
                | Ok buf \<Rightarrow>
                    Inr \<lparr> file_title =
                            (case book_title book of
                               None \<Rightarrow> str ''gutenberg_'' @ gutenbergId
                             | Some t \<Rightarrow> if t \<noteq> [] then t else str ''gutenberg_'' @ gutenbergId),
                          file_mime = fst (outLabel m),
                          file_ext = snd (outLabel m),
                          file_buffer = buf \<rparr>)))"

section \<open>Format choice of the earlier variant (pickBestFormat)\<close>

text \<open>
  \<open>pickBestFormat\<close> of \<open>server.js\<close> prefers EPUB: it tries four exact keys in its own order,
  and then the first key of the map that starts with \<open>text/plain\<close>.
\<close>

definition candidatesStage1 :: "jsstring list" where
  "candidatesStage1 =
     [str ''application/epub+zip'',
      str ''application/x-mobipocket-ebook'',
      str ''text/plain; charset=utf-8'',
      str ''text/plain'']"

definition pickBestFormat :: "(jsstring \<times> jsstring) list \<Rightarrow> (jsstring \<times> jsstring) option" where
  "pickBestFormat formats =
     (case pickCandidate formats candidatesStage1 of
        Some (url, m) \<Rightarrow> Some (m, url)
      | None \<Rightarrow>
          (case find (\<lambda>k. k \<noteq> [] \<and> startsWith k (str ''text/plain'')) (map fst formats) of
             Some k \<Rightarrow> (case map_of formats k of Some url \<Rightarrow> Some (k, url) | None \<Rightarrow> None)
           | None \<Rightarrow> None))"

section \<open>Content classifier (isBadWikisourceTitle, looksLikeIndexOrList)\<close>

text \<open>
  The namespace prefixes of \<open>badPrefixes\<close>, in the order of the source; the Russian ones are
  written as code units: Kategoriya:, Sluzhebnaya:, Fajl:, Shablon:, Obsuzhdenie:, Portal:,
  Vikiistochnik:, Avtor:.
\<close>

definition badPrefixes :: "jsstring list" where
  "badPrefixes =
     [[0x41A, 0x430, 0x442, 0x435, 0x433, 0x43E, 0x440, 0x438, 0x44F, 0x3A], str ''Category:'',
      [0x421, 0x43B, 0x443, 0x436, 0x435, 0x431, 0x43D, 0x430, 0x44F, 0x3A], str ''Special:'',
      [0x424, 0x430, 0x439, 0x43B, 0x3A], str ''File:'',
      [0x428, 0x430, 0x431, 0x43B, 0x43E, 0x43D, 0x3A], str ''Template:'',
      [0x41E, 0x431, 0x441, 0x443, 0x436, 0x434, 0x435, 0x43D, 0x438, 0x435, 0x3A], str ''Talk:'',
      [0x41F, 0x43E, 0x440, 0x442, 0x430, 0x43B, 0x3A], str ''Portal:'',
      [0x412, 0x438, 0x43A, 0x438, 0x438, 0x441, 0x442, 0x43E, 0x447, 0x43D, 0x438, 0x43A, 0x3A],
      str ''Wikisource:'',
      str ''Index:'', str ''Page:'',
      [0x410, 0x432, 0x442, 0x43E, 0x440, 0x3A], str ''Author:'']"

definition isBadWikisourceTitle :: "jsstring \<Rightarrow> bool" where
  "isBadWikisourceTitle t =
     (if t = [] then True
      else (let s = trim t in list_ex (\<lambda>p. startsWith s p) badPrefixes))"

text \<open>\<open>/^\s*[\*\-\<bullet>]/.test(l)\<close>: after leading white space the line starts with
  \<open>*\<close>, \<open>-\<close> or the bullet U+2022.\<close>

definition isListLine :: "jsstring \<Rightarrow> bool" where
  "isListLine l =
     (case dropWhile isWhiteSpace l of
        [] \<Rightarrow> False
      | c # _ \<Rightarrow> c = 0x2A \<or> c = 0x2D \<or> c = 0x2022)"

text \<open>\<open>listy\<close>: the number of list lines among \<open>x.split("\n")\<close>.\<close>

definition listy :: "jsstring \<Rightarrow> nat" where
  "listy x = length (filter isListLine (splitOn 0x0A x))"

text \<open>
  The three other regular expressions have the \<open>i\<close> flag and no \<open>u\<close> flag: two code
  units match when their canonical forms are equal, where \<open>Canonicalize\<close> takes a code unit
  to its upper-case mapping if that is one code unit and does not map a non-ASCII unit into
  ASCII. The mappings onto Latin and Cyrillic capitals are written out: \<open>a-z\<close>, the small
  Cyrillic letters \<open>U+0430-U+045F\<close>, \<open>U+0491\<close>, and the historic variants
  \<open>U+1C80-U+1C88\<close>. Every other code unit is left as it is; since the patterns consist
  of Latin and Cyrillic letters and \<open>=\<close>, this gives the same matches.
\<close>

definition canonicalize :: "jschar \<Rightarrow> jschar" where
  "canonicalize c =
     (let n = unat c in
        if 0x61 \<le> n \<and> n \<le> 0x7A then of_nat (n - 0x20)
        else if 0x430 \<le> n \<and> n \<le> 0x44F then of_nat (n - 0x20)
        else if 0x450 \<le> n \<and> n \<le> 0x45F then of_nat (n - 0x50)
        else if n = 0x491 then 0x490
        else if n = 0x1C80 then 0x412
        else if n = 0x1C81 then 0x414
        else if n = 0x1C82 then 0x41E
        else if n = 0x1C83 then 0x421
        else if n = 0x1C84 \<or> n = 0x1C85 then 0x422
        else if n = 0x1C86 then 0x42A
        else if n = 0x1C87 then 0x462
        else if n = 0x1C88 then 0xA64A
        else c)"

text \<open>A literal pattern matched at the head of a string, ignoring case: the rest after the
  match.\<close>

fun matchIgnoreCase :: "jsstring \<Rightarrow> jsstring \<Rightarrow> jsstring option" where
  "matchIgnoreCase [] s = Some s"
| "matchIgnoreCase (p # ps) [] = None"
| "matchIgnoreCase (p # ps) (c # cs) =
     (if canonicalize c = canonicalize p then matchIgnoreCase ps cs else None)"

text \<open>\<open>re.test(x)\<close> for an unanchored pattern: a match at some position.\<close>

fun testAnywhere :: "(jsstring \<Rightarrow> bool) \<Rightarrow> jsstring \<Rightarrow> bool" where
  "testAnywhere m [] = m []"
| "testAnywhere m (c # cs) = (m (c # cs) \<or> testAnywhere m cs)"

definition matchesOneOf :: "jsstring list \<Rightarrow> jsstring \<Rightarrow> bool" where
  "matchesOneOf ws s = list_ex (\<lambda>w. matchIgnoreCase w s \<noteq> None) ws"

text \<open>The words Soderzhanie, Zmist, Oglavlenie, Proizvedeniya, Tvory as code units.\<close>

definition wordSoderzhanie :: jsstring where
  "wordSoderzhanie = [0x421, 0x43E, 0x434, 0x435, 0x440, 0x436, 0x430, 0x43D, 0x438, 0x435]"

definition wordZmist :: jsstring where
  "wordZmist = [0x417, 0x43C, 0x456, 0x441, 0x442]"

definition wordOglavlenie :: jsstring where
  "wordOglavlenie = [0x41E, 0x433, 0x43B, 0x430, 0x432, 0x43B, 0x435, 0x43D, 0x438, 0x435]"

definition wordProizvedeniya :: jsstring where
  "wordProizvedeniya = [0x41F, 0x440, 0x43E, 0x438, 0x437, 0x432, 0x435, 0x434, 0x435, 0x43D, 0x438, 0x44F]"

definition wordTvory :: jsstring where
  "wordTvory = [0x422, 0x432, 0x43E, 0x440, 0x438]"

text \<open>
  \<open>/==\s*(Soderzhanie|Zmist|Contents)\s*==/i\<close> at the head of a string. The white space runs
  are followed by a character that is not white space, so each run is taken whole.
\<close>

definition contentsHeadingAt :: "jsstring \<Rightarrow> bool" where
  "contentsHeadingAt s =
     (case matchIgnoreCase (str ''=='') s of
        None \<Rightarrow> False
      | Some r \<Rightarrow>
          list_ex
            (\<lambda>w. case matchIgnoreCase w (dropWhile isWhiteSpace r) of
                    None \<Rightarrow> False
                  | Some r' \<Rightarrow> matchIgnoreCase (str ''=='') (dropWhile isWhiteSpace r') \<noteq> None)
            [wordSoderzhanie, wordZmist, str ''Contents''])"

definition hasContentsHeading :: "jsstring \<Rightarrow> bool" where
  "hasContentsHeading x = testAnywhere contentsHeadingAt x"

text \<open>\<open>/Oglavlenie|Zmist|Soderzhanie/i\<close> and \<open>/Proizvedeniya|Tvory|Works/i\<close>.\<close>

definition hasContentsKeyword :: "jsstring \<Rightarrow> bool" where
  "hasContentsKeyword x = testAnywhere (matchesOneOf [wordOglavlenie, wordZmist, wordSoderzhanie]) x"

definition hasWorksKeyword :: "jsstring \<Rightarrow> bool" where
  "hasWorksKeyword x = testAnywhere (matchesOneOf [wordProizvedeniya, wordTvory, str ''Works'']) x"

definition looksLikeIndexOrList :: "jsstring \<Rightarrow> jsstring \<Rightarrow> bool" where
  "looksLikeIndexOrList pageTitle text =
     (let t = trim pageTitle in
      if isBadWikisourceTitle t then True
      else
        (let x = trim text in
         if x = [] then True
         else if length x < 2000 \<and> 8 \<le> listy x then True
         else if hasContentsHeading x then True
         else if hasContentsKeyword x \<and> length x < 8000 then True
         else if hasWorksKeyword x \<and> length x < 12000 then True
         else False))"

text \<open>
  Two sample pages of 500 characters in ten lines, for the examples of the classifier: in the
  first every line starts with a list marker, in the second only the first three do.
\<close>

definition sampleListPage :: jsstring where
  "sampleListPage =
      str ''* Chapter 01 of the novel, from the 1869 print ..'' @ [0x0A] @
      str ''* Chapter 02 of the novel, from the 1869 print ..'' @ [0x0A] @
      str ''* Chapter 03 of the novel, from the 1869 print ..'' @ [0x0A] @
      str ''* Chapter 04 of the novel, from the 1869 print ..'' @ [0x0A] @
      str ''* Chapter 05 of the novel, from the 1869 print ..'' @ [0x0A] @
      str ''* Chapter 06 of the novel, from the 1869 print ..'' @ [0x0A] @
      str ''* Chapter 07 of the novel, from the 1869 print ..'' @ [0x0A] @
      str ''* Chapter 08 of the novel, from the 1869 print ..'' @ [0x0A] @
      str ''* Chapter 09 of the novel, from the 1869 print ..'' @ [0x0A] @
      str ''* Chapter 10 of the novel, from the 1869 print ...''"

definition sampleWorkPage :: jsstring where
  "sampleWorkPage =
      str ''* Chapter 01 of the novel, from the 1869 print ..'' @ [0x0A] @
      str ''* Chapter 02 of the novel, from the 1869 print ..'' @ [0x0A] @
      str ''* Chapter 03 of the novel, from the 1869 print ..'' @ [0x0A] @
      str ''. Chapter 04 of the novel, from the 1869 print ..'' @ [0x0A] @
      str ''. Chapter 05 of the novel, from the 1869 print ..'' @ [0x0A] @
      str ''. Chapter 06 of the novel, from the 1869 print ..'' @ [0x0A] @
      str ''. Chapter 07 of the novel, from the 1869 print ..'' @ [0x0A] @
      str ''. Chapter 08 of the novel, from the 1869 print ..'' @ [0x0A] @
      str ''. Chapter 09 of the novel, from the 1869 print ..'' @ [0x0A] @
      str ''. Chapter 10 of the novel, from the 1869 print ...''"

section \<open>Wiki download with recovery (downloadWikisourceSmart)\<close>

text \<open>
  The upstream services of the search and of the wiki download. \<open>wikiExtracts api t\<close> and
  \<open>wikiLinks api t n\<close> are the requests \<open>prop=extracts\<close> and \<open>prop=links\<close> for the
  percent-encoded title \<open>t\<close>, answered with the first entry of \<open>data.query.pages\<close> if there
  is one; \<open>wikiSearch api q limit offset\<close> is \<open>list=search\<close>; \<open>gutendexSearch q page\<close> is
  the catalog search. An absent string field of a page is the empty string, an absent list
  the empty list, absent \<open>totalhits\<close> is 0; \<open>hits_titles\<close> holds the \<open>title\<close> of every
  search hit, \<open>None\<close> for a hit without one.
\<close>

record wikiPage =
  page_missing :: bool
  page_title :: jsstring
  page_extract :: jsstring
  page_links :: "jsstring list"

record wikiHits =
  hits_titles :: "jsstring option list"
  hits_total :: int

record gutendexList =
  list_results :: "book list"
  list_next :: "jsstring option"

record upstream =
  gutendexSearch :: "jsstring \<Rightarrow> int \<Rightarrow> gutendexList response"
  wikiSearch :: "jsstring \<Rightarrow> jsstring \<Rightarrow> int \<Rightarrow> number \<Rightarrow> wikiHits response"
  wikiExtracts :: "jsstring \<Rightarrow> jsstring \<Rightarrow> wikiPage option response"
  wikiLinks :: "jsstring \<Rightarrow> jsstring \<Rightarrow> nat \<Rightarrow> wikiPage option response"

definition WS_RU :: jsstring where
  "WS_RU = str ''https://ru.wikisource.org/w/api.php''"

definition WS_UA :: jsstring where
  "WS_UA = str ''https://uk.wikisource.org/w/api.php''"

text \<open>\<open>fetchJson\<close>: a rejected fetch or an unreadable body propagates, a response that is
  not ok throws \<open>Fetch failed\<close>.\<close>

definition fetchJson :: "'a response \<Rightarrow> error + 'a" where
  "fetchJson r =
     (case r of
        Rejected \<Rightarrow> Inl UpstreamRejected
      | NotOk \<Rightarrow> Inl FetchFailed
      | Ok v \<Rightarrow> Inr v)"

definition getWikisourcePlain :: "upstream \<Rightarrow> jsstring \<Rightarrow> jsstring \<Rightarrow> error + jsstring \<times> jsstring" where
  "getWikisourcePlain env apiUrl t =
     (case encodeURIComponent t of
        None \<Rightarrow> Inl URIError
      | Some et \<Rightarrow>
          (case fetchJson (wikiExtracts env apiUrl et) of
             Inl e \<Rightarrow> Inl e
           | Inr None \<Rightarrow> Inl PageNotFound
           | Inr (Some page) \<Rightarrow>
               if page_missing page then Inl PageNotFound
               else Inr (if page_title page \<noteq> [] then page_title page else t,
                         trim (page_extract page))))"

definition getWikisourceCandidateLinks ::
  "upstream \<Rightarrow> jsstring \<Rightarrow> jsstring \<Rightarrow> nat \<Rightarrow> error + jsstring list" where
  "getWikisourceCandidateLinks env apiUrl t maxLinks =
     (case encodeURIComponent t of
        None \<Rightarrow> Inl URIError
      | Some et \<Rightarrow>
          (case fetchJson (wikiLinks env apiUrl et (min maxLinks 200)) of
             Inl e \<Rightarrow> Inl e
           | Inr None \<Rightarrow> Inr []
           | Inr (Some page) \<Rightarrow> Inr (filter (\<lambda>l. l \<noteq> []) (page_links page))))"

definition pickBestLink :: "jsstring \<Rightarrow> jsstring list \<Rightarrow> jsstring option" where
  "pickBestLink currentTitle links =
     (let cur = trim currentTitle;
          filtered = filter (\<lambda>s. \<not> isBadWikisourceTitle s)
                       (filter (\<lambda>s. s \<noteq> [] \<and> s \<noteq> cur) (map trim links))
      in case filtered of
           [] \<Rightarrow> None
         | first # _ \<Rightarrow>
             (case filter (\<lambda>s. \<not> includesJS s (str '':'')) filtered of
                [] \<Rightarrow> Some first
              | plain # _ \<Rightarrow> Some plain))"

text \<open>\<open>Buffer.from(text, "utf-8")\<close>: the UTF-8 octets of the code points, an unpaired
  surrogate becoming U+FFFD.\<close>

fun utf8Buffer :: "jsstring \<Rightarrow> bytes" where
  "utf8Buffer [] = []"
| "utf8Buffer (c # cs) =
     (if isLeadSurrogate c then
        (case cs of
           [] \<Rightarrow> [0xEF, 0xBF, 0xBD]
         | d # ds \<Rightarrow>
             if isTrailSurrogate d then map of_nat (utf8 (pairCodePoint c d)) @ utf8Buffer ds
             else [0xEF, 0xBF, 0xBD] @ utf8Buffer cs)
      else if isTrailSurrogate c then [0xEF, 0xBF, 0xBD] @ utf8Buffer cs
      else map of_nat (utf8 (unat c)) @ utf8Buffer cs)"

text \<open>
  The calls that the download makes, in order: \<open>PlainCall t\<close> for
  \<open>getWikisourcePlain(apiUrl, t)\<close>, \<open>LinksCall t\<close> for \<open>getWikisourceCandidateLinks(apiUrl, t, 120)\<close>.
\<close>

datatype call = PlainCall jsstring | LinksCall jsstring

fun isPlainCall :: "call \<Rightarrow> bool" where
  "isPlainCall (PlainCall t) = True"
| "isPlainCall (LinksCall t) = False"

text \<open>
  The loop \<open>for (let hop = 0; hop < 2; hop++)\<close> from the state \<open>(hop, resolvedTitle, text)\<close>,
  with the calls made so far: it ends with the state after the loop, or with the error of a
  call.
\<close>

function followLinks ::
  "upstream \<Rightarrow> jsstring \<Rightarrow> nat \<Rightarrow> jsstring \<Rightarrow> jsstring \<Rightarrow> call list
     \<Rightarrow> (error + jsstring \<times> jsstring) \<times> call list" where
  "followLinks env apiUrl hop resolvedTitle text calls =
     (if hop < 2 then
        if \<not> looksLikeIndexOrList resolvedTitle text then (Inr (resolvedTitle, text), calls)
        else
          (case getWikisourceCandidateLinks env apiUrl resolvedTitle 120 of
             Inl e \<Rightarrow> (Inl e, calls @ [LinksCall resolvedTitle])
           | Inr links \<Rightarrow>
               (case pickBestLink resolvedTitle links of
                  None \<Rightarrow> (Inr (resolvedTitle, text), calls @ [LinksCall resolvedTitle])
                | Some best \<Rightarrow>
                    (case getWikisourcePlain env apiUrl best of
                       Inl e \<Rightarrow> (Inl e, calls @ [LinksCall resolvedTitle, PlainCall best])
                     | Inr (nextTitle, nextText) \<Rightarrow>
                         if nextTitle = resolvedTitle
                         then (Inr (resolvedTitle, text),
                               calls @ [LinksCall resolvedTitle, PlainCall best])
                         else followLinks env apiUrl (hop + 1) nextTitle nextText
                                (calls @ [LinksCall resolvedTitle, PlainCall best]))))
      else (Inr (resolvedTitle, text), calls))"
  by pat_completeness auto
termination
  by (relation "measure (\<lambda>(env, apiUrl, hop, resolvedTitle, text, calls). 2 - hop)") auto

declare followLinks.simps [simp del]

text \<open>The check after the loop and the returned file.\<close>

definition finishDownload :: "error + jsstring \<times> jsstring \<Rightarrow> error + resolved" where
  "finishDownload state =
     (case state of
        Inl e \<Rightarrow> Inl e
      | Inr (resolvedTitle, text) \<Rightarrow>
          if text = [] \<or> looksLikeIndexOrList resolvedTitle text then Inl IndexPageNotResolvable
          else Inr \<lparr> file_title = resolvedTitle,
                     file_mime = str ''text/plain; charset=utf-8'',
                     file_ext = str ''txt'',
                     file_buffer = utf8Buffer text \<rparr>)"

text \<open>The download with the list of its calls, and the download itself.\<close>

definition downloadWikisourceSmartCalls ::
  "upstream \<Rightarrow> jsstring \<Rightarrow> jsstring \<Rightarrow> (error + resolved) \<times> call list" where
  "downloadWikisourceSmartCalls env apiUrl t =
     (case getWikisourcePlain env apiUrl t of
        Inl e \<Rightarrow> (Inl e, [PlainCall t])
      | Inr (resolvedTitle, text) \<Rightarrow>
          (let (state, calls) = followLinks env apiUrl 0 resolvedTitle text [PlainCall t]
           in (finishDownload state, calls)))"

definition downloadWikisourceSmart ::
  "upstream \<Rightarrow> jsstring \<Rightarrow> jsstring \<Rightarrow> jsstring \<Rightarrow> error + resolved" where
  "downloadWikisourceSmart env apiUrl t tag = fst (downloadWikisourceSmartCalls env apiUrl t)"

text \<open>The link-follow hops of a run: the calls of \<open>getWikisourcePlain\<close> after the first.\<close>

definition linkFollowHops :: "call list \<Rightarrow> nat" where
  "linkFollowHops calls = length (filter isPlainCall (tl calls))"

text \<open>
  Three sample wikis for the examples of the download. In \<open>workWiki\<close> every page is the same
  short poem; in \<open>deadEndWiki\<close> every page is blank and has no links; in \<open>chainWiki\<close> every
  page is blank and links to one further page.
\<close>

definition samplePoem :: jsstring where
  "samplePoem = str ''The sea is calm tonight, the tide is full, the moon lies fair''"

definition workWiki :: upstream where
  "workWiki =
     \<lparr> gutendexSearch = (\<lambda>q p. Rejected),
       wikiSearch = (\<lambda>api q limit offset. Rejected),
       wikiExtracts = (\<lambda>api t. Ok (Some \<lparr> page_missing = False, page_title = [],
                                            page_extract = samplePoem, page_links = [] \<rparr>)),
       wikiLinks = (\<lambda>api t n. Ok (Some \<lparr> page_missing = False, page_title = [],
                                           page_extract = [], page_links = [] \<rparr>)) \<rparr>"

definition deadEndWiki :: upstream where
  "deadEndWiki =
     \<lparr> gutendexSearch = (\<lambda>q p. Rejected),
       wikiSearch = (\<lambda>api q limit offset. Rejected),
       wikiExtracts = (\<lambda>api t. Ok (Some \<lparr> page_missing = False, page_title = [],
                                            page_extract = [], page_links = [] \<rparr>)),
       wikiLinks = (\<lambda>api t n. Ok (Some \<lparr> page_missing = False, page_title = [],
                                           page_extract = [], page_links = [] \<rparr>)) \<rparr>"

definition chainWiki :: upstream where
  "chainWiki =
     \<lparr> gutendexSearch = (\<lambda>q p. Rejected),
       wikiSearch = (\<lambda>api q limit offset. Rejected),
       wikiExtracts = (\<lambda>api t. Ok (Some \<lparr> page_missing = False, page_title = [],
                                            page_extract = [], page_links = [] \<rparr>)),
       wikiLinks = (\<lambda>api t n. Ok (Some \<lparr> page_missing = False, page_title = [],
                                           page_extract = [], page_links = [t @ str ''x''] \<rparr>)) \<rparr>"

section \<open>Search adapters and the /search handler\<close>

record item =
  item_id :: jsstring
  item_title :: "jsstring option"
  item_author :: jsstring
  item_lang :: jsstring
  item_source :: jsstring
  item_formats :: "jsstring list"

text \<open>\<open>safeInt(v, def)\<close>, for the string \<open>v\<close> that \<open>parseInt\<close> reads: a finite positive
  result is kept, every other one (\<open>NaN\<close>, an infinity, zero, a negative number) gives
  \<open>def\<close>.\<close>

definition safeInt :: "jsstring \<Rightarrow> int \<Rightarrow> int" where
  "safeInt v def =
     (case parseInt v of
        Finite n \<Rightarrow> if 0 < n then n else def
      | NaN \<Rightarrow> def
      | PosInfinity \<Rightarrow> def
      | NegInfinity \<Rightarrow> def)"

text \<open>\<open>xs.join(sep)\<close>.\<close>

fun joinWith :: "jsstring \<Rightarrow> jsstring list \<Rightarrow> jsstring" where
  "joinWith sep [] = []"
| "joinWith sep [x] = x"
| "joinWith sep (x # y # ys) = x @ sep @ joinWith sep (y # ys)"

text \<open>\<open>xs.map(f)\<close> for an \<open>f\<close> that may throw: the first error aborts the map.\<close>

fun mapThrowing :: "('a \<Rightarrow> error + 'b) \<Rightarrow> 'a list \<Rightarrow> error + 'b list" where
  "mapThrowing f [] = Inr []"
| "mapThrowing f (x # xs) =
     (case f x of
        Inl e \<Rightarrow> Inl e
      | Inr y \<Rightarrow> (case mapThrowing f xs of Inl e \<Rightarrow> Inl e | Inr ys \<Rightarrow> Inr (y # ys)))"

definition gutenbergItem :: "book \<Rightarrow> error + item" where
  "gutenbergItem b =
     (case makeId (str ''gutenberg'') (book_id b) of
        Inl e \<Rightarrow> Inl e
      | Inr i \<Rightarrow>
          Inr \<lparr> item_id = i,
                item_title = book_title b,
                item_author = joinWith (str '', '') (book_authors b),
                item_lang = (case book_languages b of [] \<Rightarrow> [] | l # _ \<Rightarrow> l),
                item_source = str ''gutenberg'',
                item_formats = map fst (book_formats b) \<rparr>)"

definition searchGutenberg :: "upstream \<Rightarrow> jsstring \<Rightarrow> int \<Rightarrow> error + item list \<times> bool" where
  "searchGutenberg env q page =
     (case encodeURIComponent q of
        None \<Rightarrow> Inl URIError
      | Some eq \<Rightarrow>
          (case fetchJson (gutendexSearch env eq page) of
             Inl e \<Rightarrow> Inl e
           | Inr d \<Rightarrow>
               (case mapThrowing gutenbergItem (list_results d) of
                  Inl e \<Rightarrow> Inl e
                | Inr items \<Rightarrow>
                    Inr (items, (case list_next d of None \<Rightarrow> False | Some u \<Rightarrow> u \<noteq> [])))))"

text \<open>One search hit as an item; \<open>makeId\<close> encodes the string of the title, which is
  \<open>undefined\<close> for a hit without title.\<close>

definition wikisourceItem :: "jsstring \<Rightarrow> jsstring option \<Rightarrow> error + item" where
  "wikisourceItem tag t =
     (case makeId tag (case t of None \<Rightarrow> str ''undefined'' | Some s \<Rightarrow> s) of
        Inl e \<Rightarrow> Inl e
      | Inr i \<Rightarrow>
          Inr \<lparr> item_id = i,
                item_title = t,
                item_author = [],
                item_lang = (if tag = str ''wsrc-ua'' then str ''uk'' else str ''ru''),
                item_source = tag,
                item_formats = [str ''text/plain''] \<rparr>)"

text \<open>\<open>searchWikisource\<close>: \<open>offset = (page - 1) * limit\<close> and
  \<open>hasMore = offset + results.length < total\<close> are computed on Numbers.\<close>

definition searchWikisource ::
  "upstream \<Rightarrow> jsstring \<Rightarrow> jsstring \<Rightarrow> int \<Rightarrow> jsstring \<Rightarrow> error + item list \<times> bool" where
  "searchWikisource env apiUrl q page tag =
     (let limit = 20; offset = timesPos (plusInt (Finite page) (- 1)) limit
      in case encodeURIComponent q of
           None \<Rightarrow> Inl URIError
         | Some eq \<Rightarrow>
             (case fetchJson (wikiSearch env apiUrl eq limit offset) of
                Inl e \<Rightarrow> Inl e
              | Inr d \<Rightarrow>
                  (case mapThrowing (wikisourceItem tag) (hits_titles d) of
                     Inl e \<Rightarrow> Inl e
                   | Inr items \<Rightarrow>
                       Inr (items,
                            lessInt (plusInt offset (int (length (hits_titles d)))) (hits_total d)))))"

text \<open>
  The character class of \<open>hasCyr\<close>, the letters of the Russian and Ukrainian alphabets: the
  ranges \<open>U+0410-U+042F\<close> and \<open>U+0430-U+044F\<close>, and the letters \<open>U+0401 U+0451 U+0406
  U+0456 U+0407 U+0457 U+0404 U+0454 U+0490 U+0491\<close> (Io, I, Yi, Ye, Ghe with upturn).
\<close>

definition isCyrillicLetter :: "jschar \<Rightarrow> bool" where
  "isCyrillicLetter c =
     (let n = unat c in
        (0x410 \<le> n \<and> n \<le> 0x42F) \<or> (0x430 \<le> n \<and> n \<le> 0x44F) \<or>
        n = 0x401 \<or> n = 0x451 \<or> n = 0x406 \<or> n = 0x456 \<or> n = 0x407 \<or> n = 0x457 \<or>
        n = 0x404 \<or> n = 0x454 \<or> n = 0x490 \<or> n = 0x491)"

definition hasCyr :: "jsstring \<Rightarrow> bool" where
  "hasCyr q = list_ex isCyrillicLetter q"

text \<open>The weight \<open>w\<close> of the comparator and the comparator \<open>(a, b) => w(a) - w(b)\<close>.\<close>

definition weight :: "bool \<Rightarrow> item \<Rightarrow> int" where
  "weight cyr x =
     (if \<not> cyr then (if item_source x = str ''gutenberg'' then 0 else 1)
      else if item_source x = str ''wsrc-ru'' then 0
      else if item_source x = str ''wsrc-ua'' then 0
      else 2)"

definition compareItems :: "bool \<Rightarrow> item \<Rightarrow> item \<Rightarrow> int" where
  "compareItems cyr a b = weight cyr a - weight cyr b"

text \<open>
  \<open>Array.prototype.sort(compare)\<close> is stable (ECMAScript 2019, every Node with global
  \<open>fetch\<close>): with a consistent comparator its result is the stable sorting, computed here by
  inserting the elements from the right, each before the first element that does not
  compare lower.
\<close>

fun insertSorted :: "('a \<Rightarrow> 'a \<Rightarrow> int) \<Rightarrow> 'a \<Rightarrow> 'a list \<Rightarrow> 'a list" where
  "insertSorted cmp x [] = [x]"
| "insertSorted cmp x (y # ys) =
     (if cmp x y \<le> 0 then x # y # ys else y # insertSorted cmp x ys)"

fun sortJS :: "('a \<Rightarrow> 'a \<Rightarrow> int) \<Rightarrow> 'a list \<Rightarrow> 'a list" where
  "sortJS cmp [] = []"
| "sortJS cmp (x # xs) = insertSorted cmp x (sortJS cmp xs)"

text \<open>The loop over the settled promises: a fulfilled one adds its items and its
  \<open>hasMore\<close>, a rejected one adds nothing.\<close>

fun collect ::
  "(error + item list \<times> bool) list \<Rightarrow> item list \<times> bool \<Rightarrow> item list \<times> bool" where
  "collect [] acc = acc"
| "collect (r # rs) (items, hasMore) =
     (case r of
        Inr (its, hm) \<Rightarrow> collect rs (items @ its, hasMore \<or> hm)
      | Inl e \<Rightarrow> collect rs (items, hasMore))"

record searchResult =
  result_page :: int
  result_hasMore :: bool
  result_items :: "item list"

datatype searchResponse =
    Json200 searchResult
  | Json400 jsstring
  | Json500 error

text \<open>
  The handler of \<open>GET /search\<close>; \<open>qParam\<close> is \<open>(req.query.q || "").toString()\<close>,
  \<open>pageParam\<close> the string of \<open>req.query.page\<close> (\<open>undefined\<close> if the parameter is
  absent). Nothing in the \<open>try\<close> block throws, the adapters being settled, so the
  \<open>catch\<close> branch with status 500 is never taken.
\<close>

definition searchHandler :: "upstream \<Rightarrow> jsstring \<Rightarrow> jsstring \<Rightarrow> searchResponse" where
  "searchHandler env qParam pageParam =
     (let q = trim qParam; page = safeInt pageParam 1
      in if q = [] then Json400 (str ''Query is empty'')
         else
           (let g = searchGutenberg env q page;
                ru = searchWikisource env WS_RU q page (str ''wsrc-ru'');
                ua = searchWikisource env WS_UA q page (str ''wsrc-ua'');
                (items, hasMore) = collect [g, ru, ua] ([], False)
            in Json200 \<lparr> result_page = page,
                         result_hasMore = hasMore,
                         result_items = sortJS (compareItems (hasCyr q)) items \<rparr>))"

text \<open>What a settled adapter contributes.\<close>

definition fulfilledItems :: "error + item list \<times> bool \<Rightarrow> item list" where
  "fulfilledItems r = (case r of Inr (its, hm) \<Rightarrow> its | Inl e \<Rightarrow> [])"

definition fulfilledMore :: "error + item list \<times> bool \<Rightarrow> bool" where
  "fulfilledMore r = (case r of Inr (its, hm) \<Rightarrow> hm | Inl e \<Rightarrow> False)"

section \<open>The /search handlers of the earlier variants\<close>



text \<open>
  \<open>part_001\<close> (Gutenberg and Standard Ebooks, sequential): \<open>clampInt(page, 1, 1, 999)\<close>
  reads \<open>String(v ?? "")\<close> with \<open>parseInt\<close>, gives \<open>def\<close> for \<open>NaN\<close> and otherwise
  \<open>Math.max(min, Math.min(max, n))\<close>; an empty query gives an empty result; the Gutenberg search is awaited unguarded, so its
  error reaches the \<open>catch\<close> of the handler (status 500); only the Standard Ebooks search has
  its own \<open>try\<close>.
\<close>

definition clampInt :: "jsstring \<Rightarrow> int \<Rightarrow> int \<Rightarrow> int \<Rightarrow> int" where
  "clampInt v def lo hi =
     (case parseInt v of
        NaN \<Rightarrow> def
      | Finite n \<Rightarrow> max lo (min hi n)
      | PosInfinity \<Rightarrow> max lo hi
      | NegInfinity \<Rightarrow> lo)"

definition searchHandlerSequential ::
  "(jsstring \<Rightarrow> int \<Rightarrow> error + item list \<times> bool) \<Rightarrow> (jsstring \<Rightarrow> int \<Rightarrow> error + item list \<times> bool)
     \<Rightarrow> jsstring \<Rightarrow> jsstring \<Rightarrow> searchResponse" where
  "searchHandlerSequential gutenberg standardEbooks qParam pageParam =
     (let q = trim qParam; page = clampInt pageParam 1 1 999
      in if q = [] then Json200 \<lparr> result_page = page, result_hasMore = False, result_items = [] \<rparr>
         else
           (case gutenberg q page of
              Inl e \<Rightarrow> Json500 e
            | Inr (gItems, gMore) \<Rightarrow>
                (case standardEbooks q page of
                   Inl e \<Rightarrow> Json200 \<lparr> result_page = page, result_hasMore = gMore,
                                       result_items = gItems \<rparr>
                 | Inr (sItems, sMore) \<Rightarrow>
                     Json200 \<lparr> result_page = page, result_hasMore = gMore \<or> sMore,
                               result_items = gItems @ sItems \<rparr>)))"

text \<open>Sample items, a sample query in Russian (Tolstoj) and a sample upstream for the
  examples of the search: the catalog search is rejected, the Russian wiki answers two hits
  out of fifty, the Ukrainian wiki answers with a status that is not ok.\<close>

definition sampleItem :: "jsstring \<Rightarrow> jsstring \<Rightarrow> item" where
  "sampleItem src t =
     \<lparr> item_id = src @ str '':'' @ t, item_title = Some t, item_author = [], item_lang = [],
       item_source = src, item_formats = [] \<rparr>"

definition sampleItems :: "item list" where
  "sampleItems =
     [sampleItem (str ''gutenberg'') (str ''1''), sampleItem (str ''wsrc-ru'') (str ''A''),
      sampleItem (str ''gutenberg'') (str ''2''), sampleItem (str ''wsrc-ua'') (str ''B''),
      sampleItem (str ''wsrc-ru'') (str ''C'')]"

definition queryTolstoj :: jsstring where
  "queryTolstoj = [0x422, 0x43E, 0x43B, 0x441, 0x442, 0x43E, 0x439]"

definition partialUpstream :: upstream where
  "partialUpstream =
     \<lparr> gutendexSearch = (\<lambda>q p. Rejected),
       wikiSearch = (\<lambda>api q limit offset.
          if api = WS_RU
          then Ok \<lparr> hits_titles = [Some (str ''Anna Karenina''), Some (str ''Resurrection'')], hits_total = 50 \<rparr>
          else NotOk),
       wikiExtracts = (\<lambda>api t. Rejected),
       wikiLinks = (\<lambda>api t n. Rejected) \<rparr>"

section \<open>Properties of the URI coding\<close>

lemma split3: "(cp::nat) div 0x1000 * 0x1000 + cp div 0x40 mod 0x40 * 0x40 + cp mod 0x40 = cp"
proof -
  have a: "cp div 0x40 = cp div 0x40 div 0x40 * 0x40 + cp div 0x40 mod 0x40" by simp
  have b: "cp div 0x40 div 0x40 = cp div 0x1000" by (simp add: div_mult2_eq[symmetric])
  have c: "cp = cp div 0x40 * 0x40 + cp mod 0x40" by simp
  from a b c show ?thesis by linarith
qed

lemma split4: "(cp::nat) div 0x40000 * 0x40000 + cp div 0x1000 mod 0x40 * 0x1000 + cp div 0x40 mod 0x40 * 0x40 + cp mod 0x40 = cp"
proof -
  have a: "cp div 0x1000 = cp div 0x1000 div 0x40 * 0x40 + cp div 0x1000 mod 0x40" by simp
  have b: "cp div 0x1000 div 0x40 = cp div 0x40000" by (simp add: div_mult2_eq[symmetric])
  have c: "cp div 0x1000 * 0x1000 + cp div 0x40 mod 0x40 * 0x40 + cp mod 0x40 = cp" by (rule split3)
  from a b c show ?thesis by linarith
qed

lemma unat_of_nat16: "k < 65536 \<Longrightarrow> unat (of_nat k :: jschar) = k"
  by (simp add: unat_of_nat)

lemma unat_hexDigit: "n < 16 \<Longrightarrow> unat (hexDigit n) = (if n < 10 then 0x30 + n else 0x37 + n)"
  by (simp add: hexDigit_def unat_of_nat16)

lemma hexValue_hexDigit: "n < 16 \<Longrightarrow> hexValue (hexDigit n) = Some n"
  by (simp add: hexValue_def unat_hexDigit Let_def)

lemma percent_Cons: "percent (b # bs) = 0x25 # hexDigit (b div 16) # hexDigit (b mod 16) # percent bs"
  by (simp add: percent_def)

lemma percent_Nil: "percent [] = []"
  by (simp add: percent_def)

lemma readOctet_percent:
  assumes "b < 256"
  shows "readOctet (percent (b # bs) @ r) = Some (b, percent bs @ r)"
proof -
  have "b div 16 < 16" "b mod 16 < 16" using assms by simp_all
  then have "hexValue (hexDigit (b div 16)) = Some (b div 16)"
    "hexValue (hexDigit (b mod 16)) = Some (b mod 16)"
    by (simp_all only: hexValue_hexDigit)
  then show ?thesis
    by (simp add: percent_Cons)
qed

lemma readContinuation_percent:
  "\<forall>b \<in> set bs. isContinuation b \<Longrightarrow>
     readContinuation (length bs) (percent bs @ r) = Some (bs, r)"
proof (induction bs)
  case Nil
  then show ?case by (simp add: percent_Nil)
next
  case (Cons b bs)
  then have "b < 256" by (simp add: isContinuation_def)
  with Cons show ?case
    by (simp add: readOctet_percent)
qed

lemma decode_percent_ascii:
  assumes "b < 0x80"
  shows "decodeURIComponent (percent [b] @ r) = map_option ((#) (of_nat b)) (decodeURIComponent r)"
proof -
  have "readOctet (0x25 # hexDigit (b div 16) # hexDigit (b mod 16) # r) = Some (b, r)"
    using readOctet_percent [of b "[]" r] assms by (simp add: percent_Cons percent_Nil)
  then show ?thesis using assms
    by (simp add: percent_Cons percent_Nil)
qed

lemma decode_percent_lead:
  assumes "0xC0 \<le> b" "b < 0xF8" "leadingOnes b = Suc (length bs)"
    "\<forall>x \<in> set bs. isContinuation x" "utf8Decode (b # bs) = Some cp"
  shows "decodeURIComponent (percent (b # bs) @ r) = map_option ((@) (utf16 cp)) (decodeURIComponent r)"
proof -
  have b: "b < 256" "\<not> b < 0x80" using assms by simp_all
  have ro: "readOctet (0x25 # hexDigit (b div 16) # hexDigit (b mod 16) # percent bs @ r) = Some (b, percent bs @ r)"
    using readOctet_percent [of b bs r] b by (simp add: percent_Cons)
  have rc: "readContinuation (leadingOnes b - 1) (percent bs @ r) = Some (bs, r)"
    using readContinuation_percent [of bs r] assms by simp
  have lo: "\<not> (leadingOnes b = 1 \<or> 4 < leadingOnes b)"
    using assms(1,2) by (simp add: leadingOnes_def)
  show ?thesis
    using ro rc lo b assms(5) by (simp add: percent_Cons)
qed

lemma utf8_two:
  assumes "0x80 \<le> cp" "cp < 0x800"
  shows "decodeURIComponent (percent (utf8 cp) @ r) = map_option ((@) (utf16 cp)) (decodeURIComponent r)"
proof -
  let ?b0 = "0xC0 + cp div 0x40" and ?b1 = "0x80 + cp mod 0x40"
  have u: "utf8 cp = [?b0, ?b1]" using assms by (simp add: utf8_def)
  have r0: "0xC0 \<le> ?b0" "?b0 < 0xE0" using assms by simp_all
  have c1: "isContinuation ?b1" by (simp add: isContinuation_def)
  have cp: "(?b0 - 0xC0) * 0x40 + (?b1 - 0x80) = cp" by simp
  have dec: "utf8Decode [?b0, ?b1] = Some cp"
    unfolding utf8Decode_def using c1 cp assms(1) by (simp add: Let_def)
  have lo: "leadingOnes ?b0 = Suc (length [?b1])" using r0 by (simp add: leadingOnes_def)
  show ?thesis
    unfolding u
    by (rule decode_percent_lead [OF r0(1) _ lo _ dec]) (use r0 c1 in simp_all)
qed

lemma utf8_three:
  assumes "0x800 \<le> cp" "cp < 0x10000" "\<not> (0xD800 \<le> cp \<and> cp \<le> 0xDFFF)"
  shows "decodeURIComponent (percent (utf8 cp) @ r) = map_option ((@) (utf16 cp)) (decodeURIComponent r)"
proof -
  let ?b0 = "0xE0 + cp div 0x1000" and ?b1 = "0x80 + cp div 0x40 mod 0x40" and ?b2 = "0x80 + cp mod 0x40"
  have u: "utf8 cp = [?b0, ?b1, ?b2]" using assms by (simp add: utf8_def)
  have r0: "0xC0 \<le> ?b0" "0xE0 \<le> ?b0" "?b0 < 0xF0" using assms by simp_all
  have c: "isContinuation ?b1" "isContinuation ?b2" by (simp_all add: isContinuation_def)
  have cp: "(?b0 - 0xE0) * 0x1000 + (?b1 - 0x80) * 0x40 + (?b2 - 0x80) = cp"
    using split3 [of cp] by simp
  have dec: "utf8Decode [?b0, ?b1, ?b2] = Some cp"
    unfolding utf8Decode_def using c cp assms by (simp add: Let_def)
  have lo: "leadingOnes ?b0 = Suc (length [?b1, ?b2])" using r0 by (simp add: leadingOnes_def)
  show ?thesis
    unfolding u
    by (rule decode_percent_lead [OF r0(1) _ lo _ dec]) (use r0 c in simp_all)
qed

lemma utf8_four:
  assumes "0x10000 \<le> cp" "cp < 0x110000"
  shows "decodeURIComponent (percent (utf8 cp) @ r) = map_option ((@) (utf16 cp)) (decodeURIComponent r)"
proof -
  let ?b0 = "0xF0 + cp div 0x40000" and ?b1 = "0x80 + cp div 0x1000 mod 0x40"
    and ?b2 = "0x80 + cp div 0x40 mod 0x40" and ?b3 = "0x80 + cp mod 0x40"
  have u: "utf8 cp = [?b0, ?b1, ?b2, ?b3]" using assms by (simp add: utf8_def)
  have r0: "0xC0 \<le> ?b0" "0xF0 \<le> ?b0" "?b0 < 0xF8" using assms by simp_all
  have c: "isContinuation ?b1" "isContinuation ?b2" "isContinuation ?b3"
    by (simp_all add: isContinuation_def)
  have cp: "(?b0 - 0xF0) * 0x40000 + (?b1 - 0x80) * 0x1000 + (?b2 - 0x80) * 0x40 + (?b3 - 0x80) = cp"
    using split4 [of cp] by simp
  have dec: "utf8Decode [?b0, ?b1, ?b2, ?b3] = Some cp"
    unfolding utf8Decode_def using c cp assms by (simp add: Let_def)
  have lo: "leadingOnes ?b0 = Suc (length [?b1, ?b2, ?b3])" using r0 by (simp add: leadingOnes_def)
  show ?thesis
    unfolding u
    by (rule decode_percent_lead [OF r0(1) _ lo _ dec]) (use r0 c in simp_all)
qed


lemma unat_lt16: "unat (c :: jschar) < 0x10000"
  using unsigned_less [of c] by simp

lemma isUnreserved_not_special:
  "isUnreserved c \<Longrightarrow> c \<noteq> 0x25 \<and> c \<noteq> 0x3A \<and> \<not> isLeadSurrogate c \<and> \<not> isTrailSurrogate c"
  by (auto simp: isUnreserved_def isLeadSurrogate_def isTrailSurrogate_def Let_def)

lemma pairCodePoint_range:
  assumes "isLeadSurrogate c" "isTrailSurrogate d"
  shows "0x10000 \<le> pairCodePoint c d" "pairCodePoint c d < 0x110000"
  using assms unfolding pairCodePoint_def isLeadSurrogate_def isTrailSurrogate_def by arith+

lemma utf16_pair:
  assumes "isLeadSurrogate c" "isTrailSurrogate d"
  shows "utf16 (pairCodePoint c d) = [c, d]"
proof -
  define h where "h = unat c - 0xD800"
  define l where "l = unat d - 0xDC00"
  have hl: "unat c = 0xD800 + h" "unat d = 0xDC00 + l" "l < 0x400"
    using assms unfolding h_def l_def isLeadSurrogate_def isTrailSurrogate_def by arith+
  have cp: "pairCodePoint c d - 0x10000 = h * 0x400 + l"
    by (simp add: pairCodePoint_def h_def l_def)
  have "(h * 0x400 + l) div 0x400 = h" "(h * 0x400 + l) mod 0x400 = l"
    using hl(3) by simp_all
  then have "utf16 (pairCodePoint c d) = [of_nat (unat c), of_nat (unat d)]"
    using pairCodePoint_range [OF assms] cp hl by (simp add: utf16_def)
  then show ?thesis by simp
qed

lemma utf16_unit: "utf16 (unat (c :: jschar)) = [c]"
  using unat_lt16 [of c] by (simp add: utf16_def)

lemma decode_percent_utf8:
  assumes "cp < 0x110000" "\<not> (0xD800 \<le> cp \<and> cp \<le> 0xDFFF)" "0x80 \<le> cp"
  shows "decodeURIComponent (percent (utf8 cp) @ r) = map_option ((@) (utf16 cp)) (decodeURIComponent r)"
proof -
  consider "cp < 0x800" | "0x800 \<le> cp" "cp < 0x10000" | "0x10000 \<le> cp" by linarith
  then show ?thesis
  proof cases
    case 1
    with assms utf8_two [of cp r] show ?thesis by blast
  next
    case 2
    with assms utf8_three [of cp r] show ?thesis by blast
  next
    case 3
    with assms utf8_four [of cp r] show ?thesis by blast
  qed
qed

lemma decode_percent_unit:
  assumes "\<not> isLeadSurrogate c" "\<not> isTrailSurrogate c"
  shows "decodeURIComponent (percent (utf8 (unat c)) @ r) = map_option ((#) c) (decodeURIComponent r)"
proof (cases "unat c < 0x80")
  case True
  then have "utf8 (unat c) = [unat c]" by (simp add: utf8_def)
  with True decode_percent_ascii [of "unat c" r] show ?thesis by simp
next
  case False
  have ns: "\<not> (0xD800 \<le> unat c \<and> unat c \<le> 0xDFFF)"
    using assms by (auto simp: isLeadSurrogate_def isTrailSurrogate_def)
  have "unat c < 0x110000" using unat_lt16 [of c] by simp
  from decode_percent_utf8 [OF this ns] False
  have "decodeURIComponent (percent (utf8 (unat c)) @ r)
      = map_option ((@) (utf16 (unat c))) (decodeURIComponent r)" by simp
  then show ?thesis
    by (cases "decodeURIComponent r") (simp_all add: utf16_unit)
qed

lemma decode_percent_pair:
  assumes "isLeadSurrogate c" "isTrailSurrogate d"
  shows "decodeURIComponent (percent (utf8 (pairCodePoint c d)) @ r)
     = map_option (\<lambda>t. c # d # t) (decodeURIComponent r)"
proof -
  have r: "0x10000 \<le> pairCodePoint c d" "pairCodePoint c d < 0x110000"
    using pairCodePoint_range [OF assms] by simp_all
  have "decodeURIComponent (percent (utf8 (pairCodePoint c d)) @ r)
      = map_option ((@) (utf16 (pairCodePoint c d))) (decodeURIComponent r)"
    using r by (intro decode_percent_utf8) simp_all
  then show ?thesis
    by (cases "decodeURIComponent r") (simp_all add: utf16_pair [OF assms])
qed

lemma encode_decode:
  "wellFormed s \<Longrightarrow> \<exists>e. encodeURIComponent s = Some e \<and> decodeURIComponent e = Some s"
proof (induction s rule: wellFormed.induct)
  case 1
  show ?case by simp
next
  case (2 c cs)
  show ?case
  proof (cases "isUnreserved c")
    case True
    then have ns: "c \<noteq> 0x25" "\<not> isLeadSurrogate c" "\<not> isTrailSurrogate c"
      using isUnreserved_not_special [of c] by simp_all
    with "2.prems" have "wellFormed cs" by simp
    with "2.IH"(2) ns obtain e where e: "encodeURIComponent cs = Some e" "decodeURIComponent e = Some cs"
      by blast
    with True ns(1) show ?thesis by simp
  next
    case False
    note unres = this
    show ?thesis
    proof (cases "isLeadSurrogate c")
      case True
      with "2.prems" obtain d ds where cs: "cs = d # ds" and d: "isTrailSurrogate d" and wf: "wellFormed ds"
        by (auto split: list.splits)
      from "2.IH"(1) [OF True cs wf] obtain e
        where e: "encodeURIComponent ds = Some e" "decodeURIComponent e = Some ds" by blast
      have enc: "encodeURIComponent (c # cs) = Some (percent (utf8 (pairCodePoint c d)) @ e)"
        using unres True cs d e(1) by simp
      have "decodeURIComponent (percent (utf8 (pairCodePoint c d)) @ e) = Some (c # d # ds)"
        using decode_percent_pair [OF True d] e(2) by simp
      with enc cs show ?thesis by simp
    next
      case False
      with "2.prems" have nt: "\<not> isTrailSurrogate c" and wf: "wellFormed cs" by simp_all
      from "2.IH"(2) [OF False wf] obtain e
        where e: "encodeURIComponent cs = Some e" "decodeURIComponent e = Some cs" by blast
      have enc: "encodeURIComponent (c # cs) = Some (percent (utf8 (unat c)) @ e)"
        using unres False nt e(1) by simp
      have "decodeURIComponent (percent (utf8 (unat c)) @ e) = Some (c # cs)"
        using decode_percent_unit [OF False nt] e(2) by simp
      with enc show ?thesis by simp
    qed
  qed
qed

lemma encode_wellFormed:
  "encodeURIComponent s = Some e \<Longrightarrow> wellFormed s"
proof (induction s arbitrary: e rule: wellFormed.induct)
  case 1
  show ?case by simp
next
  case (2 c cs)
  show ?case
  proof (cases "isUnreserved c")
    case True
    then have ns: "\<not> isLeadSurrogate c" "\<not> isTrailSurrogate c"
      using isUnreserved_not_special [of c] by simp_all
    with True "2.prems" "2.IH"(2) show ?thesis by auto
  next
    case False
    with "2.prems" "2.IH" show ?thesis
      by (auto split: if_splits list.splits)
  qed
qed

lemma splitOn_not_Nil: "splitOn d s \<noteq> []"
  by (induction s) (auto split: list.splits)

lemma splitOn_no_sep: "d \<notin> set s \<Longrightarrow> splitOn d s = [s]"
  by (induction s) auto

lemma splitOn_first: "d \<notin> set a \<Longrightarrow> splitOn d (a @ d # b) = a # splitOn d b"
  by (induction a) auto

lemma hexDigit_unreserved: "n < 16 \<Longrightarrow> isUnreserved (hexDigit n)"
  by (simp add: isUnreserved_def unat_hexDigit Let_def)

lemma percent_chars:
  "\<forall>b \<in> set bs. b < 256 \<Longrightarrow> \<forall>c \<in> set (percent bs). isUnreserved c \<or> c = 0x25"
proof (induction bs)
  case Nil
  then show ?case by (simp add: percent_Nil)
next
  case (Cons b bs)
  then have "b < 256" by simp
  then have "b div 16 < 16" "b mod 16 < 16" by simp_all
  then have "isUnreserved (hexDigit (b div 16))" "isUnreserved (hexDigit (b mod 16))"
    by (simp_all only: hexDigit_unreserved)
  with Cons show ?case by (simp add: percent_Cons)
qed

lemma utf8_octets: "cp < 0x110000 \<Longrightarrow> \<forall>b \<in> set (utf8 cp). b < 256"
  by (simp add: utf8_def) arith

lemma utf8_unit_octets: "\<forall>b \<in> set (utf8 (unat (c :: jschar))). b < 256"
  using utf8_octets [of "unat c"] unat_lt16 [of c] by simp

lemma utf8_pair_octets:
  "isLeadSurrogate c \<Longrightarrow> isTrailSurrogate d \<Longrightarrow> \<forall>b \<in> set (utf8 (pairCodePoint c d)). b < 256"
  using utf8_octets [of "pairCodePoint c d"] pairCodePoint_range [of c d] by simp

lemma encode_chars:
  "encodeURIComponent s = Some e \<Longrightarrow> \<forall>c \<in> set e. isUnreserved c \<or> c = 0x25"
proof (induction s arbitrary: e rule: encodeURIComponent.induct)
  case 1
  then show ?case by simp
next
  case (2 c cs)
  show ?case
  proof (cases "isUnreserved c")
    case True
    with "2.prems" obtain e' where e': "encodeURIComponent cs = Some e'" "e = c # e'"
      by auto
    with "2.IH"(1) [OF True e'(1)] True show ?thesis by simp
  next
    case False
    note unres = this
    show ?thesis
    proof (cases "isLeadSurrogate c")
      case True
      with unres "2.prems" obtain d ds e' where cs: "cs = d # ds" and d: "isTrailSurrogate d"
        and e': "encodeURIComponent ds = Some e'" "e = percent (utf8 (pairCodePoint c d)) @ e'"
        by (auto split: list.splits if_splits)
      have "\<forall>x \<in> set e'. isUnreserved x \<or> x = 0x25"
        using "2.IH"(2) [OF unres True cs d e'(1)] .
      moreover have "\<forall>x \<in> set (percent (utf8 (pairCodePoint c d))). isUnreserved x \<or> x = 0x25"
        using percent_chars [OF utf8_pair_octets [OF True d]] .
      ultimately show ?thesis using e'(2) by auto
    next
      case False
      with unres "2.prems" obtain e' where nt: "\<not> isTrailSurrogate c"
        and e': "encodeURIComponent cs = Some e'" "e = percent (utf8 (unat c)) @ e'"
        by (auto split: if_splits)
      have "\<forall>x \<in> set e'. isUnreserved x \<or> x = 0x25"
        using "2.IH"(3) [OF unres False nt e'(1)] .
      moreover have "\<forall>x \<in> set (percent (utf8 (unat c))). isUnreserved x \<or> x = 0x25"
        using percent_chars [OF utf8_unit_octets] .
      ultimately show ?thesis using e'(2) by auto
    qed
  qed
qed

lemma encode_no_colon: "encodeURIComponent s = Some e \<Longrightarrow> 0x3A \<notin> set e"
  using encode_chars [of s e] isUnreserved_not_special [of "0x3A"] by auto

lemma percent_not_Nil: "bs \<noteq> [] \<Longrightarrow> percent bs \<noteq> []"
  by (cases bs) (simp_all add: percent_Cons)

lemma utf8_not_Nil: "utf8 cp \<noteq> []"
  by (simp add: utf8_def)

lemma encode_not_Nil: "encodeURIComponent s = Some e \<Longrightarrow> s \<noteq> [] \<Longrightarrow> e \<noteq> []"
  by (cases s) (auto split: if_splits list.splits simp: percent_not_Nil utf8_not_Nil)

lemma replaceChar_append: "replaceChar c r (a @ b) = replaceChar c r a @ replaceChar c r b"
  by (simp add: replaceChar_def)

lemma replaceChar_Cons: "replaceChar c r (x # b) = (if x = c then r else [x]) @ replaceChar c r b"
  by (simp add: replaceChar_def)

lemma replaceChar_Nil: "replaceChar c r [] = []"
  by (simp add: replaceChar_def)

lemma replaceChar_absent: "c \<notin> set s \<Longrightarrow> replaceChar c r s = s"
  by (induction s) (auto simp: replaceChar_Cons replaceChar_Nil)

lemma rfcEscape_append: "rfcEscape (a @ b) = rfcEscape a @ rfcEscape b"
  by (simp add: rfcEscape_def replaceChar_append)

lemma rfcEscape_Nil: "rfcEscape [] = []"
  by (simp add: rfcEscape_def replaceChar_Nil)

lemma rfcEscape_single:
  "rfcEscape [c] =
     (if c = 0x27 then percent [0x27] else if c = 0x28 then percent [0x28]
      else if c = 0x29 then percent [0x29] else if c = 0x2A then percent [0x2A] else [c])"
  by (simp add: rfcEscape_def replaceChar_Cons replaceChar_Nil str_def percent_def hexDigit_def)

lemma rfcEscape_plain:
  assumes "\<forall>c \<in> set s. c \<noteq> 0x27 \<and> c \<noteq> 0x28 \<and> c \<noteq> 0x29 \<and> c \<noteq> 0x2A"
  shows "rfcEscape s = s"
proof -
  have "0x27 \<notin> set s" "0x28 \<notin> set s" "0x29 \<notin> set s" "0x2A \<notin> set s"
    using assms by auto
  then show ?thesis
    by (simp add: rfcEscape_def replaceChar_absent)
qed

lemma hexDigit_plain:
  "n < 16 \<Longrightarrow> hexDigit n \<noteq> 0x27 \<and> hexDigit n \<noteq> 0x28 \<and> hexDigit n \<noteq> 0x29 \<and> hexDigit n \<noteq> 0x2A"
proof -
  assume "n < 16"
  then have "0x30 \<le> unat (hexDigit n)" by (simp add: unat_hexDigit)
  then show ?thesis by auto
qed

lemma rfcEscape_percent:
  "\<forall>b \<in> set bs. b < 256 \<Longrightarrow> rfcEscape (percent bs) = percent bs"
proof (induction bs)
  case Nil
  then show ?case by (simp add: percent_Nil rfcEscape_Nil)
next
  case (Cons b bs)
  then have "b < 256" by simp
  then have "b div 16 < 16" "b mod 16 < 16" by simp_all
  then have "rfcEscape [0x25, hexDigit (b div 16), hexDigit (b mod 16)]
      = [0x25, hexDigit (b div 16), hexDigit (b mod 16)]"
    using hexDigit_plain [of "b div 16"] hexDigit_plain [of "b mod 16"]
    by (intro rfcEscape_plain) simp
  moreover have "percent (b # bs) = [0x25, hexDigit (b div 16), hexDigit (b mod 16)] @ percent bs"
    by (simp add: percent_Cons)
  ultimately show ?case
    using Cons by (simp only: rfcEscape_append) simp
qed

lemma decode_rfcEscape_unreserved:
  assumes "isUnreserved c"
  shows "decodeURIComponent (rfcEscape [c] @ r) = map_option ((#) c) (decodeURIComponent r)"
proof (cases "c = 0x27 \<or> c = 0x28 \<or> c = 0x29 \<or> c = 0x2A")
  case True
  then have "rfcEscape [c] = percent [unat c]" "unat c < 0x80" "of_nat (unat c) = c"
    by (auto simp: rfcEscape_single)
  with decode_percent_ascii [of "unat c" r] show ?thesis by simp
next
  case False
  then have "rfcEscape [c] = [c]" by (simp add: rfcEscape_single)
  moreover have "c \<noteq> 0x25" using isUnreserved_not_special [OF assms] by simp
  ultimately show ?thesis by simp
qed

lemma encode_decode_rfc:
  "wellFormed s \<Longrightarrow> \<exists>e. encodeURIComponent s = Some e \<and> decodeURIComponent (rfcEscape e) = Some s"
proof (induction s rule: wellFormed.induct)
  case 1
  show ?case by (simp add: rfcEscape_Nil)
next
  case (2 c cs)
  show ?case
  proof (cases "isUnreserved c")
    case True
    then have ns: "\<not> isLeadSurrogate c" "\<not> isTrailSurrogate c"
      using isUnreserved_not_special [of c] by simp_all
    with "2.prems" have "wellFormed cs" by simp
    with "2.IH"(2) ns obtain e where e: "encodeURIComponent cs = Some e"
      "decodeURIComponent (rfcEscape e) = Some cs"
      by blast
    have "rfcEscape (c # e) = rfcEscape [c] @ rfcEscape e"
      using rfcEscape_append [of "[c]" e] by simp
    with True e decode_rfcEscape_unreserved [OF True, of "rfcEscape e"] show ?thesis by simp
  next
    case False
    note unres = this
    show ?thesis
    proof (cases "isLeadSurrogate c")
      case True
      with "2.prems" obtain d ds where cs: "cs = d # ds" and d: "isTrailSurrogate d" and wf: "wellFormed ds"
        by (auto split: list.splits)
      from "2.IH"(1) [OF True cs wf] obtain e
        where e: "encodeURIComponent ds = Some e" "decodeURIComponent (rfcEscape e) = Some ds" by blast
      have enc: "encodeURIComponent (c # cs) = Some (percent (utf8 (pairCodePoint c d)) @ e)"
        using unres True cs d e(1) by simp
      have esc: "rfcEscape (percent (utf8 (pairCodePoint c d)) @ e)
          = percent (utf8 (pairCodePoint c d)) @ rfcEscape e"
        by (simp add: rfcEscape_append rfcEscape_percent [OF utf8_pair_octets [OF True d]])
      have "decodeURIComponent (percent (utf8 (pairCodePoint c d)) @ rfcEscape e) = Some (c # d # ds)"
        using decode_percent_pair [OF True d] e(2) by simp
      with enc esc cs show ?thesis by simp
    next
      case False
      with "2.prems" have nt: "\<not> isTrailSurrogate c" and wf: "wellFormed cs" by simp_all
      from "2.IH"(2) [OF False wf] obtain e
        where e: "encodeURIComponent cs = Some e" "decodeURIComponent (rfcEscape e) = Some cs" by blast
      have enc: "encodeURIComponent (c # cs) = Some (percent (utf8 (unat c)) @ e)"
        using unres False nt e(1) by simp
      have esc: "rfcEscape (percent (utf8 (unat c)) @ e) = percent (utf8 (unat c)) @ rfcEscape e"
        by (simp add: rfcEscape_append rfcEscape_percent [OF utf8_unit_octets])
      have "decodeURIComponent (percent (utf8 (unat c)) @ rfcEscape e) = Some (c # cs)"
        using decode_percent_unit [OF False nt] e(2) by simp
      with enc esc show ?thesis by simp
    qed
  qed
qed

lemma rfc5987Encode_decode:
  "wellFormed s \<Longrightarrow> \<exists>e. rfc5987Encode s = Some e \<and> decodeURIComponent e = Some s"
  using encode_decode_rfc [of s] by (auto simp: rfc5987Encode_def)

lemma rfcEscape_chars:
  "\<forall>c \<in> set e. isUnreserved c \<or> c = 0x25 \<Longrightarrow> \<forall>c \<in> set (rfcEscape e). isUnreserved c \<or> c = 0x25"
proof (induction e)
  case Nil
  then show ?case by (simp add: rfcEscape_Nil)
next
  case (Cons c e)
  have "rfcEscape (c # e) = rfcEscape [c] @ rfcEscape e"
    using rfcEscape_append [of "[c]" e] by simp
  moreover have "\<forall>x \<in> set (rfcEscape [c]). isUnreserved x \<or> x = 0x25"
    using Cons.prems
    by (auto simp: rfcEscape_single percent_def hexDigit_def isUnreserved_def)
  ultimately show ?case using Cons by auto
qed

lemma rfc5987Encode_chars:
  "rfc5987Encode s = Some e \<Longrightarrow> \<forall>c \<in> set e. isPrintableAscii c"
proof -
  assume "rfc5987Encode s = Some e"
  then obtain e' where e': "encodeURIComponent s = Some e'" "e = rfcEscape e'"
    by (auto simp: rfc5987Encode_def)
  have "\<forall>c \<in> set e. isUnreserved c \<or> c = 0x25"
    using rfcEscape_chars [OF encode_chars [OF e'(1)]] e'(2) by simp
  then show ?thesis
    by (auto simp: isUnreserved_def isPrintableAscii_def Let_def)
qed

section \<open>Properties of the identifier codec\<close>

lemma parseId_wsrc:
  assumes tag: "tag = str ''wsrc-ru'' \<or> tag = str ''wsrc-ua''"
    and e: "0x3A \<notin> set e" "e \<noteq> []"
  shows "parseId (tag @ 0x3A # e) =
     (case decodeURIComponent e of
        None \<Rightarrow> Inl URIError
      | Some v \<Rightarrow> Inr (Some \<lparr> parsed_source = tag, parsed_value = v \<rparr>))"
proof -
  have t: "0x3A \<notin> set tag" using tag by (auto simp: str_def)
  have sp: "splitOn 0x3A (tag @ 0x3A # e) = [tag, e]"
    using splitOn_first [OF t, of e] splitOn_no_sep [OF e(1)] by simp
  have ne: "tag @ 0x3A # e \<noteq> []" by simp
  have tags: "str ''wsrc-ru'' \<noteq> str ''gutenberg''" "str ''wsrc-ua'' \<noteq> str ''gutenberg''"
    "str ''wsrc-ua'' \<noteq> str ''wsrc-ru''"
    by (simp_all add: str_def)
  from tag show ?thesis
  proof
    assume t: "tag = str ''wsrc-ru''"
    show ?thesis
      using sp ne e(2) tags unfolding t parseId_def by (simp add: Let_def)
  next
    assume t: "tag = str ''wsrc-ua''"
    show ?thesis
      using sp ne e(2) tags unfolding t parseId_def by (simp add: Let_def)
  qed
qed

lemma parseId_gutenberg:
  assumes "0x3A \<notin> set raw" "raw \<noteq> []"
  shows "parseId (str ''gutenberg'' @ 0x3A # raw) =
     Inr (Some \<lparr> parsed_source = str ''gutenberg'', parsed_value = raw \<rparr>)"
proof -
  have t: "0x3A \<notin> set (str ''gutenberg'')" by (simp add: str_def)
  have sp: "splitOn 0x3A (str ''gutenberg'' @ 0x3A # raw) = [str ''gutenberg'', raw]"
    using splitOn_first [OF t, of raw] splitOn_no_sep [OF assms(1)] by simp
  show ?thesis
    unfolding parseId_def using sp assms(2) by (simp add: Let_def)
qed

lemma str_colon: "str (s @ '':'') = str s @ [0x3A]"
  by (simp add: str_def)

text \<open>
  C1, as stated, fails on the empty payload: \<open>makeId("wsrc-ru", "")\<close> is \<open>"wsrc-ru:"\<close>, whose
  second piece is the empty string, and \<open>parseId\<close> returns \<open>null\<close> on \<open>!rest\<close>. It also
  fails for a \<open>gutenberg\<close> payload with a colon, which is written unescaped:
  \<open>id.split(":")\<close> cuts it and \<open>rest\<close> is the part before the colon only.
\<close>

theorem makeId_parseId_counterexample:
  "makeId (str ''wsrc-ru'') [] = Inr (str ''wsrc-ru:'') \<and>
   parseId (str ''wsrc-ru:'') = Inr None \<and>
   makeId (str ''gutenberg'') (str ''84:1'') = Inr (str ''gutenberg:84:1'') \<and>
   parseId (str ''gutenberg:84:1'') =
     Inr (Some \<lparr> parsed_source = str ''gutenberg'', parsed_value = str ''84'' \<rparr>)"
  by (simp add: makeId_def parseId_def str_def Let_def)

text \<open>
  C1, amended. For the tags \<open>wsrc-ru\<close> and \<open>wsrc-ua\<close> and every non-empty payload without
  an unpaired surrogate, colons included, \<open>parseId (makeId (tag, payload))\<close> is
  \<open>(tag, payload)\<close>; for the tag \<open>gutenberg\<close> the same holds for every non-empty payload
  without a colon (the payloads of this tag are book numbers); the identifier of an empty
  payload is built, and \<open>parseId\<close> answers \<open>null\<close> for it.
\<close>

theorem makeId_parseId_roundtrip:
  "((source = str ''wsrc-ru'' \<or> source = str ''wsrc-ua'') \<and> wellFormed raw \<and> raw \<noteq> [] \<longrightarrow>
      (\<exists>ident. makeId source raw = Inr ident \<and>
         parseId ident = Inr (Some \<lparr> parsed_source = source, parsed_value = raw \<rparr>))) \<and>
   (raw \<noteq> [] \<and> 0x3A \<notin> set raw \<longrightarrow>
      (\<exists>ident. makeId (str ''gutenberg'') raw = Inr ident \<and>
         parseId ident = Inr (Some \<lparr> parsed_source = str ''gutenberg'', parsed_value = raw \<rparr>))) \<and>
   (source = str ''gutenberg'' \<or> source = str ''wsrc-ru'' \<or> source = str ''wsrc-ua'' \<longrightarrow>
      (\<exists>ident. makeId source [] = Inr ident \<and> parseId ident = Inr None))"
proof (intro conjI impI)
  assume a: "(source = str ''wsrc-ru'' \<or> source = str ''wsrc-ua'') \<and> wellFormed raw \<and> raw \<noteq> []"
  then obtain e where e: "encodeURIComponent raw = Some e" "decodeURIComponent e = Some raw"
    using encode_decode [of raw] by blast
  have e2: "0x3A \<notin> set e" "e \<noteq> []"
    using encode_no_colon [OF e(1)] encode_not_Nil [OF e(1)] a by simp_all
  have tags: "str ''wsrc-ru'' \<noteq> str ''gutenberg''" "str ''wsrc-ua'' \<noteq> str ''gutenberg''"
    "str ''wsrc-ua'' \<noteq> str ''wsrc-ru''"
    by (simp_all add: str_def)
  have colon: "str ''wsrc-ru:'' = str ''wsrc-ru'' @ [0x3A]" "str ''wsrc-ua:'' = str ''wsrc-ua'' @ [0x3A]"
    by (simp_all add: str_def)
  have mk: "makeId source raw = Inr (source @ 0x3A # e)"
    using a e(1) tags colon by (auto simp: makeId_def)
  have "parseId (source @ 0x3A # e) = Inr (Some \<lparr> parsed_source = source, parsed_value = raw \<rparr>)"
    using parseId_wsrc [OF _ e2, of source] a e(2) by simp
  with mk show "\<exists>ident. makeId source raw = Inr ident \<and>
         parseId ident = Inr (Some \<lparr> parsed_source = source, parsed_value = raw \<rparr>)"
    by blast
next
  assume a: "raw \<noteq> [] \<and> 0x3A \<notin> set raw"
  have colon: "str ''gutenberg:'' = str ''gutenberg'' @ [0x3A]"
    by (simp add: str_def)
  have mk: "makeId (str ''gutenberg'') raw = Inr (str ''gutenberg'' @ 0x3A # raw)"
    by (simp add: makeId_def colon)
  with parseId_gutenberg [of raw] a
  show "\<exists>ident. makeId (str ''gutenberg'') raw = Inr ident \<and>
         parseId ident = Inr (Some \<lparr> parsed_source = str ''gutenberg'', parsed_value = raw \<rparr>)"
    by simp
next
  assume a: "source = str ''gutenberg'' \<or> source = str ''wsrc-ru'' \<or> source = str ''wsrc-ua''"
  have "parseId (str ''gutenberg:'') = Inr None" "parseId (str ''wsrc-ru:'') = Inr None"
    "parseId (str ''wsrc-ua:'') = Inr None"
    by (simp_all add: parseId_def str_def Let_def)
  moreover have "makeId (str ''gutenberg'') [] = Inr (str ''gutenberg:'')"
    "makeId (str ''wsrc-ru'') [] = Inr (str ''wsrc-ru:'')"
    "makeId (str ''wsrc-ua'') [] = Inr (str ''wsrc-ua:'')"
    by (simp_all add: makeId_def str_def)
  ultimately show "\<exists>ident. makeId source [] = Inr ident \<and> parseId ident = Inr None"
    using a by auto
qed

theorem makeId_parseId_roundtrip_witness:
  "(\<exists>ident. makeId (str ''wsrc-ru'') [0x412, 0x43E, 0x439, 0x43D, 0x430, 0x3A, 0x20, 0x43C, 0x438, 0x440] = Inr ident \<and>
      parseId ident = Inr (Some \<lparr> parsed_source = str ''wsrc-ru'',
        parsed_value = [0x412, 0x43E, 0x439, 0x43D, 0x430, 0x3A, 0x20, 0x43C, 0x438, 0x440] \<rparr>)) \<and>
   (\<exists>ident. makeId (str ''gutenberg'') (str ''84'') = Inr ident \<and>
      parseId ident = Inr (Some \<lparr> parsed_source = str ''gutenberg'', parsed_value = str ''84'' \<rparr>)) \<and>
   (\<exists>ident. makeId (str ''wsrc-ua'') [] = Inr ident \<and> parseId ident = Inr None)"
proof -
  let ?w = "[0x412, 0x43E, 0x439, 0x43D, 0x430, 0x3A, 0x20, 0x43C, 0x438, 0x440] :: jsstring"
  have w: "wellFormed ?w \<and> ?w \<noteq> []"
    by (simp add: isLeadSurrogate_def isTrailSurrogate_def)
  have g: "str ''84'' \<noteq> [] \<and> 0x3A \<notin> set (str ''84'')"
    by (simp add: str_def)
  from makeId_parseId_roundtrip [of "str ''wsrc-ru''" ?w] w
    makeId_parseId_roundtrip [of "str ''wsrc-ua''" "str ''84''"] g
  show ?thesis by blast
qed

section \<open>Properties of the download headers\<close>

lemma wellFormed_append: "wellFormed a \<Longrightarrow> wellFormed b \<Longrightarrow> wellFormed (a @ b)"
proof (induction a rule: wellFormed.induct)
  case 1
  then show ?case by simp
next
  case (2 c cs)
  show ?case
  proof (cases "isLeadSurrogate c")
    case True
    with "2.prems" obtain d ds where cs: "cs = d # ds" "isTrailSurrogate d" "wellFormed ds"
      by (auto split: list.splits)
    with "2.IH"(1) [OF True cs(1) cs(3) "2.prems"(2)] True show ?thesis by simp
  next
    case False
    with "2.prems" "2.IH"(2) show ?thesis by simp
  qed
qed

lemma printable_wellFormed: "\<forall>c \<in> set s. isPrintableAscii c \<Longrightarrow> wellFormed s"
  by (induction s) (auto simp: isPrintableAscii_def isLeadSurrogate_def isTrailSurrogate_def)

lemma str_printable_dot: "\<forall>c \<in> set (str ''.''). isPrintableAscii c"
  by (simp add: str_def isPrintableAscii_def)

lemma withDot_printable:
  "\<forall>c \<in> set ext. isPrintableAscii c \<Longrightarrow> \<forall>c \<in> set (withDot ext). isPrintableAscii c"
  using str_printable_dot by (auto simp: withDot_def)

lemma isNameChar_printable: "isNameChar c \<Longrightarrow> isPrintableAscii c"
  by (auto simp: isNameChar_def isPrintableAscii_def Let_def)

lemma collapseRuns_chars: "\<forall>c \<in> set (collapseRuns f s). isNameChar c"
proof (induction s arbitrary: f)
  case Nil
  then show ?case by simp
next
  case (Cons c cs)
  have u: "isNameChar 0x5F" by (simp add: isNameChar_def)
  show ?case
  proof (cases "isNameChar c")
    case True
    with Cons [of False] show ?thesis by simp
  next
    case False
    with Cons [of True] u show ?thesis by simp
  qed
qed

lemma stripUnderscores_subset: "set (stripUnderscores s) \<subseteq> set s"
proof
  fix x assume "x \<in> set (stripUnderscores s)"
  then have "x \<in> set (dropWhile (\<lambda>c. c = 0x5F) (rev (dropWhile (\<lambda>c. c = 0x5F) s)))"
    by (simp add: stripUnderscores_def)
  then have "x \<in> set (rev (dropWhile (\<lambda>c. c = 0x5F) s))"
    by (rule set_dropWhileD)
  then have "x \<in> set (dropWhile (\<lambda>c. c = 0x5F) s)"
    by simp
  then show "x \<in> set s"
    by (rule set_dropWhileD)
qed

lemma asciiFallbackName_printable:
  assumes "\<forall>c \<in> set ext. isPrintableAscii c"
  shows "\<forall>c \<in> set (asciiFallbackName nfkd name ext). isPrintableAscii c"
proof -
  define base where "base = stripUnderscores (collapseRuns False (filter isAscii
                   (nfkd (if name \<noteq> [] then name else str ''book''))))"
  have "\<forall>c \<in> set base. isNameChar c"
    using stripUnderscores_subset collapseRuns_chars unfolding base_def by blast
  then have b: "\<forall>c \<in> set base. isPrintableAscii c"
    using isNameChar_printable by blast
  have k: "\<forall>c \<in> set (str ''book''). isPrintableAscii c"
    by (simp add: str_def isPrintableAscii_def)
  have "asciiFallbackName nfkd name ext = (if base \<noteq> [] then base else str ''book'') @ withDot ext"
    by (simp add: asciiFallbackName_def base_def Let_def)
  with b k withDot_printable [OF assms] show ?thesis by auto
qed

lemma withDot_idem: "withDot (withDot ext) = withDot ext"
  by (simp add: withDot_def str_def)

lemmas uri_eval = isUnreserved_def isLeadSurrogate_def isTrailSurrogate_def utf8_def percent_def
  hexDigit_def Let_def str_def

lemmas hdr_eval = contentDisposition_def encodedFilename_def rfc5987Encode_def rfcEscape_def
  replaceChar_def asciiFallbackName_def withDot_def stripUnderscores_def isAscii_def isNameChar_def

text \<open>
  C7, as stated for every title, fails on the empty title: \<open>setDownloadHeaders\<close> encodes
  \<open>filenameUnicode || "book"\<close>, so the extended parameter decodes to \<open>book.txt\<close>, which
  is not the original (empty) title plus \<open>.txt\<close>.
\<close>

theorem contentDisposition_empty_title_counterexample:
  "contentDisposition (\<lambda>s. s) [] (str ''txt'') =
     Inr (str ''attachment; filename='' @ [0x22] @ str ''book.txt'' @ [0x22] @
          str ''; filename*=UTF-8'' @ [0x27, 0x27] @ str ''book.txt'') \<and>
   decodeURIComponent (str ''book.txt'') = Some (str ''book.txt'') \<and>
   str ''book.txt'' \<noteq> [] @ withDot (str ''txt'')"
  by (simp add: hdr_eval uri_eval)

text \<open>
  C7, amended. For every title without an unpaired surrogate and every extension of printable
  ASCII characters (the server passes \<open>txt\<close>, \<open>epub\<close> or \<open>bin\<close>), whatever the NFKD table:
  the Content-Disposition value is built, consists of printable ASCII characters only, ends
  with \<open>filename*=UTF-8''<encoded>\<close>, and percent-decoding \<open>encoded\<close> yields the title
  followed by the dotted extension, where the empty title is replaced by \<open>book\<close>. The
  witness is the Russian title of "War and Peace" (eleven code units from \<open>0x412\<close> on)
  with \<open>txt\<close>: the fallback is \<open>book.txt\<close>, the decoded parameter is the title
  followed by \<open>.txt\<close>.
\<close>

theorem contentDisposition_ascii_roundtrip:
  assumes "wellFormed filenameUnicode" "\<forall>c \<in> set ext. isPrintableAscii c"
  shows "\<exists>cd encoded.
           contentDisposition nfkd filenameUnicode ext = Inr cd \<and>
           encodedFilename filenameUnicode ext = Some encoded \<and>
           cd = str ''attachment; filename='' @ [0x22] @
                asciiFallbackName nfkd filenameUnicode (withDot ext) @ [0x22] @
                str ''; filename*=UTF-8'' @ [0x27, 0x27] @ encoded \<and>
           (\<forall>c \<in> set cd. isPrintableAscii c) \<and>
           decodeURIComponent encoded =
             Some ((if filenameUnicode \<noteq> [] then filenameUnicode else str ''book'') @ withDot ext)"
proof -
  let ?name = "(if filenameUnicode \<noteq> [] then filenameUnicode else str ''book'') @ withDot ext"
  have book: "wellFormed (str ''book'')"
    by (simp add: str_def isLeadSurrogate_def isTrailSurrogate_def)
  have pe: "\<forall>c \<in> set (withDot ext). isPrintableAscii c"
    using withDot_printable [OF assms(2)] .
  have "wellFormed ?name"
    using assms(1) book printable_wellFormed [OF pe] by (simp add: wellFormed_append)
  then obtain encoded where enc: "rfc5987Encode ?name = Some encoded"
    and dec: "decodeURIComponent encoded = Some ?name"
    using rfc5987Encode_decode [of ?name] by blast
  define fallback where "fallback = asciiFallbackName nfkd filenameUnicode (withDot ext)"
  define cd where "cd = str ''attachment; filename='' @ [0x22] @ fallback @ [0x22] @
      str ''; filename*=UTF-8'' @ [0x27, 0x27] @ encoded"
  have ef: "encodedFilename filenameUnicode ext = Some encoded"
    using enc by (simp add: encodedFilename_def)
  have cd: "contentDisposition nfkd filenameUnicode ext = Inr cd"
    unfolding contentDisposition_def Let_def cd_def fallback_def
    using ef by simp
  have pf: "\<forall>c \<in> set fallback. isPrintableAscii c"
    unfolding fallback_def using asciiFallbackName_printable [OF pe] .
  have pl: "\<forall>c \<in> set (str ''attachment; filename=''). isPrintableAscii c"
    "isPrintableAscii 0x22" "isPrintableAscii 0x27"
    "\<forall>c \<in> set (str ''; filename*=UTF-8''). isPrintableAscii c"
    by (simp_all add: str_def isPrintableAscii_def)
  have pc: "\<forall>c \<in> set encoded. isPrintableAscii c"
    using rfc5987Encode_chars [OF enc] .
  have pcd: "\<forall>c \<in> set cd. isPrintableAscii c"
    unfolding cd_def using pf pl pc by (simp add: ball_Un)
  have eq: "cd = str ''attachment; filename='' @ [0x22] @
                asciiFallbackName nfkd filenameUnicode (withDot ext) @ [0x22] @
                str ''; filename*=UTF-8'' @ [0x27, 0x27] @ encoded"
    by (simp add: cd_def fallback_def)
  show ?thesis
    apply (rule exI [of _ cd])
    apply (rule exI [of _ encoded])
    using cd ef eq pcd dec apply (intro conjI)
        apply assumption+
    done
qed

theorem contentDisposition_ascii_roundtrip_witness:
  "wellFormed [0x412, 0x43E, 0x439, 0x43D, 0x430, 0x20, 0x438, 0x20, 0x43C, 0x438, 0x440] \<and>
   list_all isPrintableAscii (str ''txt'') \<and>
   contentDisposition (\<lambda>s. concat (map (\<lambda>c. if c = 0x439 then [0x438, 0x306] else [c]) s))
       [0x412, 0x43E, 0x439, 0x43D, 0x430, 0x20, 0x438, 0x20, 0x43C, 0x438, 0x440] (str ''txt'') =
     Inr (str ''attachment; filename='' @ [0x22] @ str ''book.txt'' @ [0x22] @
          str ''; filename*=UTF-8'' @ [0x27, 0x27] @
          str ''%D0%92%D0%BE%D0%B9%D0%BD%D0%B0%20%D0%B8%20%D0%BC%D0%B8%D1%80.txt'') \<and>
   list_all isPrintableAscii
     (str ''attachment; filename='' @ [0x22] @ str ''book.txt'' @ [0x22] @
      str ''; filename*=UTF-8'' @ [0x27, 0x27] @
      str ''%D0%92%D0%BE%D0%B9%D0%BD%D0%B0%20%D0%B8%20%D0%BC%D0%B8%D1%80.txt'') \<and>
   decodeURIComponent (str ''%D0%92%D0%BE%D0%B9%D0%BD%D0%B0%20%D0%B8%20%D0%BC%D0%B8%D1%80.txt'') =
     Some ([0x412, 0x43E, 0x439, 0x43D, 0x430, 0x20, 0x438, 0x20, 0x43C, 0x438, 0x440] @ str ''.txt'')"
proof -
  let ?t = "[0x412, 0x43E, 0x439, 0x43D, 0x430, 0x20, 0x438, 0x20, 0x43C, 0x438, 0x440] :: jsstring"
  let ?nfkd = "\<lambda>s :: jsstring. concat (map (\<lambda>c. if c = 0x439 then [0x438, 0x306] else [c]) s)"
  let ?enc = "str ''%D0%92%D0%BE%D0%B9%D0%BD%D0%B0%20%D0%B8%20%D0%BC%D0%B8%D1%80.txt''"
  let ?cd = "str ''attachment; filename='' @ [0x22] @ str ''book.txt'' @ [0x22] @
          str ''; filename*=UTF-8'' @ [0x27, 0x27] @ ?enc"
  have wf: "wellFormed ?t"
    by (simp add: isLeadSurrogate_def isTrailSurrogate_def)
  have pe: "\<forall>c \<in> set (str ''txt''). isPrintableAscii c"
    by (simp add: str_def isPrintableAscii_def)
  have ev: "contentDisposition ?nfkd ?t (str ''txt'') = Inr ?cd"
    by (simp add: hdr_eval uri_eval)
  have ef: "encodedFilename ?t (str ''txt'') = Some ?enc"
    by (simp add: hdr_eval uri_eval)
  have wd: "withDot (str ''txt'') = str ''.txt''"
    by (simp add: withDot_def str_def)
  from contentDisposition_ascii_roundtrip [OF wf pe, of ?nfkd]
  obtain cd encoded where r: "contentDisposition ?nfkd ?t (str ''txt'') = Inr cd"
    "encodedFilename ?t (str ''txt'') = Some encoded"
    "\<forall>c \<in> set cd. isPrintableAscii c"
    "decodeURIComponent encoded = Some ((if ?t \<noteq> [] then ?t else str ''book'') @ withDot (str ''txt''))"
    by blast
  from r(1) ev have "cd = ?cd" by simp
  moreover from r(2) ef have "encoded = ?enc" by simp
  ultimately have "list_all isPrintableAscii ?cd" "decodeURIComponent ?enc = Some (?t @ str ''.txt'')"
    using r(3,4) wd by (simp_all only: list_all_iff) simp
  moreover have "list_all isPrintableAscii (str ''txt'')"
    using pe by (simp only: list_all_iff)
  ultimately show ?thesis using wf ev by blast
qed

section \<open>Properties of the catalog download\<close>

lemma pickCandidate_mem:
  "pickCandidate formats cs = Some (u, m) \<Longrightarrow> m \<in> set cs \<and> map_of formats m = Some u \<and> u \<noteq> []"
  by (induction cs) (auto split: option.splits if_splits)

lemma outLabel_candidates:
  "m \<in> set candidates \<Longrightarrow>
     outLabel m = (str ''application/epub+zip'', str ''epub'') \<or>
     outLabel m = (str ''text/plain; charset=utf-8'', str ''txt'')"
  by (auto simp: candidates_def outLabel_def str_def)

lemma outLabel_html:
  "outLabel (str ''text/html; charset=utf-8'') = (str ''text/plain; charset=utf-8'', str ''txt'')"
  by (simp add: outLabel_def str_def)

lemma pickCandidate_Some_iff:
  "pickCandidate formats cs = Some (u, m) \<longleftrightarrow>
     (\<exists>pre post. cs = pre @ m # post \<and> map_of formats m = Some u \<and> u \<noteq> [] \<and>
        (\<forall>c \<in> set pre. map_of formats c = None \<or> map_of formats c = Some []))"
proof (induction cs)
  case Nil
  then show ?case by simp
next
  case (Cons c cs)
  show ?case
  proof (cases "map_of formats c = None \<or> map_of formats c = Some []")
    case True
    then have step: "pickCandidate formats (c # cs) = pickCandidate formats cs"
      by (auto split: option.splits)
    show ?thesis
    proof
      assume "pickCandidate formats (c # cs) = Some (u, m)"
      then obtain pre post where "cs = pre @ m # post" "map_of formats m = Some u" "u \<noteq> []"
        "\<forall>c \<in> set pre. map_of formats c = None \<or> map_of formats c = Some []"
        using step Cons.IH by auto
      with True have "c # cs = (c # pre) @ m # post \<and> map_of formats m = Some u \<and> u \<noteq> [] \<and>
        (\<forall>c \<in> set (c # pre). map_of formats c = None \<or> map_of formats c = Some [])"
        by auto
      then show "\<exists>pre post. c # cs = pre @ m # post \<and> map_of formats m = Some u \<and> u \<noteq> [] \<and>
        (\<forall>c \<in> set pre. map_of formats c = None \<or> map_of formats c = Some [])"
        by blast
    next
      assume "\<exists>pre post. c # cs = pre @ m # post \<and> map_of formats m = Some u \<and> u \<noteq> [] \<and>
        (\<forall>c \<in> set pre. map_of formats c = None \<or> map_of formats c = Some [])"
      then obtain pre post where h: "c # cs = pre @ m # post" "map_of formats m = Some u" "u \<noteq> []"
        "\<forall>c \<in> set pre. map_of formats c = None \<or> map_of formats c = Some []"
        by blast
      from h True have "pre \<noteq> []" by (cases pre) auto
      then obtain pre' where pre: "pre = c # pre'" using h(1) by (cases pre) auto
      with h have "cs = pre' @ m # post \<and> map_of formats m = Some u \<and> u \<noteq> [] \<and>
        (\<forall>c \<in> set pre'. map_of formats c = None \<or> map_of formats c = Some [])"
        by auto
      then show "pickCandidate formats (c # cs) = Some (u, m)"
        using step Cons.IH by auto
    qed
  next
    case False
    then obtain v where v: "map_of formats c = Some v" "v \<noteq> []" by auto
    then have step: "pickCandidate formats (c # cs) = Some (v, c)" by simp
    show ?thesis
    proof
      assume "pickCandidate formats (c # cs) = Some (u, m)"
      with step have "u = v" "m = c" by auto
      with v have "c # cs = [] @ m # cs \<and> map_of formats m = Some u \<and> u \<noteq> [] \<and>
        (\<forall>c \<in> set []. map_of formats c = None \<or> map_of formats c = Some [])"
        by auto
      then show "\<exists>pre post. c # cs = pre @ m # post \<and> map_of formats m = Some u \<and> u \<noteq> [] \<and>
        (\<forall>c \<in> set pre. map_of formats c = None \<or> map_of formats c = Some [])"
        by blast
    next
      assume "\<exists>pre post. c # cs = pre @ m # post \<and> map_of formats m = Some u \<and> u \<noteq> [] \<and>
        (\<forall>c \<in> set pre. map_of formats c = None \<or> map_of formats c = Some [])"
      then obtain pre post where h: "c # cs = pre @ m # post" "map_of formats m = Some u" "u \<noteq> []"
        "\<forall>c \<in> set pre. map_of formats c = None \<or> map_of formats c = Some []"
        by blast
      have "pre = []"
      proof (cases pre)
        case Nil
        then show ?thesis .
      next
        case (Cons a pre')
        with h(1) have "a = c" by simp
        with Cons h(4) False show ?thesis by auto
      qed
      with h v show "pickCandidate formats (c # cs) = Some (u, m)" by auto
    qed
  qed
qed

lemma pickCandidate_None_iff:
  "pickCandidate formats cs = None \<longleftrightarrow>
     (\<forall>c \<in> set cs. map_of formats c = None \<or> map_of formats c = Some [])"
  by (induction cs) (auto split: option.splits)

text \<open>
  C10. A successful \<open>downloadGutenberg\<close> labels the file either
  \<open>('application/epub+zip', 'epub')\<close> or \<open>('text/plain; charset=utf-8', 'txt')\<close>: the
  chosen mime is one of the four candidates, so the default
  \<open>('application/octet-stream', 'bin')\<close> is never returned, and a book whose chosen
  candidate is \<open>text/html; charset=utf-8\<close> is delivered as \<open>text/plain; charset=utf-8\<close>
  with extension \<open>txt\<close>.
\<close>

theorem downloadGutenberg_label:
  assumes "downloadGutenberg fetchBook fetchFile gutenbergId = Inr f"
  shows "((file_mime f, file_ext f) = (str ''application/epub+zip'', str ''epub'') \<or>
          (file_mime f, file_ext f) = (str ''text/plain; charset=utf-8'', str ''txt'')) \<and>
         (file_mime f, file_ext f) \<noteq> (str ''application/octet-stream'', str ''bin'') \<and>
         (\<forall>b url. fetchBook gutenbergId = Ok b \<and>
             pickCandidate (book_formats b) candidates = Some (url, str ''text/html; charset=utf-8'')
             \<longrightarrow> (file_mime f, file_ext f) = (str ''text/plain; charset=utf-8'', str ''txt''))"
proof -
  from assms obtain b url m buf where
    b: "fetchBook gutenbergId = Ok b" and
    pick: "pickCandidate (book_formats b) candidates = Some (url, m)" and
    lab: "file_mime f = fst (outLabel m)" "file_ext f = snd (outLabel m)"
    by (auto simp: downloadGutenberg_def split: response.splits option.splits prod.splits)
  from pick have m: "m \<in> set candidates"
    by (simp add: pickCandidate_mem)
  have l: "(file_mime f, file_ext f) = outLabel m"
    using lab by simp
  have one: "(file_mime f, file_ext f) = (str ''application/epub+zip'', str ''epub'') \<or>
         (file_mime f, file_ext f) = (str ''text/plain; charset=utf-8'', str ''txt'')"
    using outLabel_candidates [OF m] l by simp
  have two: "(file_mime f, file_ext f) \<noteq> (str ''application/octet-stream'', str ''bin'')"
    using one by (auto simp: str_def)
  have three: "(file_mime f, file_ext f) = (str ''text/plain; charset=utf-8'', str ''txt'')"
    if "fetchBook gutenbergId = Ok b'"
       "pickCandidate (book_formats b') candidates = Some (url', str ''text/html; charset=utf-8'')"
    for b' url'
  proof -
    from that b pick have "m = str ''text/html; charset=utf-8''" by simp
    with l outLabel_html show ?thesis by simp
  qed
  from one two three show ?thesis by blast
qed

theorem downloadGutenberg_label_witness:
  "downloadGutenberg
     (\<lambda>i. Ok \<lparr> book_id = i, book_title = Some (str ''Frankenstein''), book_authors = [],
               book_languages = [str ''en''],
               book_formats = [(str ''text/html; charset=utf-8'', str ''https://g.example/84.html'')] \<rparr>)
     (\<lambda>u. Ok [60, 104, 49, 62]) (str ''84'')
   = Inr \<lparr> file_title = str ''Frankenstein'', file_mime = str ''text/plain; charset=utf-8'',
           file_ext = str ''txt'', file_buffer = [60, 104, 49, 62] \<rparr>"
proof -
  let ?fb = "\<lambda>i. Ok \<lparr> book_id = i, book_title = Some (str ''Frankenstein''), book_authors = [],
               book_languages = [str ''en''],
               book_formats = [(str ''text/html; charset=utf-8'', str ''https://g.example/84.html'')] \<rparr>"
  let ?ff = "\<lambda>u::jsstring. (Ok [60, 104, 49, 62] :: bytes response)"
  have pick: "pickCandidate [(str ''text/html; charset=utf-8'', str ''https://g.example/84.html'')] candidates
      = Some (str ''https://g.example/84.html'', str ''text/html; charset=utf-8'')"
    by (simp add: candidates_def str_def)
  define f where "f = \<lparr> file_title = str ''Frankenstein'',
      file_mime = fst (outLabel (str ''text/html; charset=utf-8'')),
      file_ext = snd (outLabel (str ''text/html; charset=utf-8'')), file_buffer = [60, 104, 49, 62 :: 8 word] \<rparr>"
  have ne: "str ''Frankenstein'' \<noteq> []"
    by (simp add: str_def)
  have f: "downloadGutenberg ?fb ?ff (str ''84'') = Inr f"
    by (simp add: downloadGutenberg_def pick ne f_def)
  from downloadGutenberg_label [OF f] pick
  have "(file_mime f, file_ext f) = (str ''text/plain; charset=utf-8'', str ''txt'')"
    by simp
  then have "f = \<lparr> file_title = str ''Frankenstein'', file_mime = str ''text/plain; charset=utf-8'',
           file_ext = str ''txt'', file_buffer = [60, 104, 49, 62] \<rparr>"
    by (simp add: f_def)
  with f show ?thesis by simp
qed

lemma pickCandidate_index:
  "pickCandidate formats cs = Some (u, m) \<longleftrightarrow>
    (\<exists>i < length cs. cs ! i = m \<and> map_of formats m = Some u \<and> u \<noteq> [] \<and>
       (\<forall>j < i. map_of formats (cs ! j) = None \<or>
                 map_of formats (cs ! j) = Some []))"
proof
  assume "pickCandidate formats cs = Some (u, m)"
  then obtain pre post where h: "cs = pre @ m # post" "map_of formats m = Some u" "u \<noteq> []"
    "\<forall>c \<in> set pre. map_of formats c = None \<or> map_of formats c = Some []"
    unfolding pickCandidate_Some_iff by blast
  have "length pre < length cs" using h(1) by simp
  moreover have "cs ! length pre = m" using h(1) by simp
  moreover have "map_of formats (cs ! j) = None \<or> map_of formats (cs ! j) = Some []"
    if "j < length pre" for j
  proof -
    have "cs ! j = pre ! j" using h(1) that by (simp add: nth_append)
    with h(4) that show ?thesis by simp
  qed
  ultimately show "\<exists>i < length cs. cs ! i = m \<and> map_of formats m = Some u \<and> u \<noteq> [] \<and>
       (\<forall>j < i. map_of formats (cs ! j) = None \<or>
                 map_of formats (cs ! j) = Some [])"
    using h(2,3) by blast
next
  assume "\<exists>i < length cs. cs ! i = m \<and> map_of formats m = Some u \<and> u \<noteq> [] \<and>
       (\<forall>j < i. map_of formats (cs ! j) = None \<or>
                 map_of formats (cs ! j) = Some [])"
  then obtain i where i: "i < length cs" "cs ! i = m" "map_of formats m = Some u"
    "u \<noteq> []"
    "\<forall>j < i. map_of formats (cs ! j) = None \<or> map_of formats (cs ! j) = Some []"
    by blast
  have split: "cs = take i cs @ m # drop (Suc i) cs"
    using i(1,2) by (metis id_take_nth_drop)
  have pre: "\<forall>c \<in> set (take i cs). map_of formats c = None \<or> map_of formats c = Some []"
  proof
    fix c assume "c \<in> set (take i cs)"
    then obtain j where j: "j < length (take i cs)" "take i cs ! j = c"
      unfolding in_set_conv_nth by blast
    from j(1) have ji: "j < i" by simp
    with j(2) have "cs ! j = c" by simp
    moreover from i(5) ji have "map_of formats (cs ! j) = None \<or> map_of formats (cs ! j) = Some []"
      by simp
    ultimately show "map_of formats c = None \<or> map_of formats c = Some []" by simp
  qed
  have "\<exists>pre post. cs = pre @ m # post \<and> map_of formats m = Some u \<and> u \<noteq> [] \<and>
      (\<forall>c \<in> set pre. map_of formats c = None \<or> map_of formats c = Some [])"
    apply (rule exI [of _ "take i cs"])
    apply (rule exI [of _ "drop (Suc i) cs"])
    using split i(3,4) pre apply (intro conjI)
       apply assumption+
    done
  then show "pickCandidate formats cs = Some (u, m)"
      by (simp only: pickCandidate_Some_iff)
qed

lemma pickBestFormat_prefers_epub:
  "pickBestFormat
     [(str ''text/plain; charset=utf-8'', str ''https://g.example/84.txt''),
      (str ''application/epub+zip'', str ''https://g.example/84.epub'')]
   = Some (str ''application/epub+zip'', str ''https://g.example/84.epub'')"
  by (simp add: pickBestFormat_def candidatesStage1_def str_def)

lemma pickBestFormat_other_charset:
  "pickBestFormat [(str ''text/plain; charset=us-ascii'', str ''https://g.example/84.txt'')]
   = Some (str ''text/plain; charset=us-ascii'', str ''https://g.example/84.txt'')"
  by (simp add: pickBestFormat_def candidatesStage1_def str_def)

text \<open>
  C6, as stated, fails: the map below holds a \<open>text/plain\<close> key with another charset and an
  EPUB key; the claim's order puts text/plain of any charset before EPUB, the code returns the
  EPUB entry, because only the two exact keys \<open>text/plain; charset=utf-8\<close> and \<open>text/plain\<close>
  are candidates.
\<close>

theorem pickCandidate_any_charset_counterexample:
  "startsWith (str ''text/plain; charset=us-ascii'') (str ''text/plain'') \<and>
   map_of [(str ''text/plain; charset=us-ascii'', str ''https://g.example/84.txt''),
           (str ''application/epub+zip'', str ''https://g.example/84.epub'')]
          (str ''text/plain; charset=us-ascii'') = Some (str ''https://g.example/84.txt'') \<and>
   pickCandidate
     [(str ''text/plain; charset=us-ascii'', str ''https://g.example/84.txt''),
      (str ''application/epub+zip'', str ''https://g.example/84.epub'')] candidates
   = Some (str ''https://g.example/84.epub'', str ''application/epub+zip'')"
  by (simp add: candidates_def str_def)

text \<open>
  C6, amended. \<open>downloadGutenberg\<close> selects among the four exact keys
  \<open>text/plain; charset=utf-8\<close>, \<open>text/plain\<close>, \<open>application/epub+zip\<close>,
  \<open>text/html; charset=utf-8\<close>, in this order: it returns the first of them whose URL in the
  formats map is present and not empty, so none of these four is skipped in favour of a later
  one; it finds no candidate exactly when none of the four has a non-empty URL.
\<close>

theorem pickCandidate_priority:
  "(pickCandidate formats candidates = Some (u, m) \<longleftrightarrow>
      (\<exists>i < length candidates. candidates ! i = m \<and> map_of formats m = Some u \<and> u \<noteq> [] \<and>
         (\<forall>j < i. map_of formats (candidates ! j) = None \<or>
                   map_of formats (candidates ! j) = Some []))) \<and>
   (pickCandidate formats candidates = None \<longleftrightarrow>
      (\<forall>c \<in> set candidates. map_of formats c = None \<or> map_of formats c = Some []))"
  using pickCandidate_index [of formats candidates u m] pickCandidate_None_iff [of formats candidates]
  by blast

theorem pickCandidate_priority_witness:
  "pickCandidate
     [(str ''application/epub+zip'', str ''https://g.example/84.epub''),
      (str ''text/plain'', str ''https://g.example/84.txt''),
      (str ''text/plain; charset=utf-8'', [])] candidates
   = Some (str ''https://g.example/84.txt'', str ''text/plain'')"
proof -
  let ?formats = "[(str ''application/epub+zip'', str ''https://g.example/84.epub''),
      (str ''text/plain'', str ''https://g.example/84.txt''),
      (str ''text/plain; charset=utf-8'', [])]"
  have "\<exists>i < length candidates. candidates ! i = str ''text/plain'' \<and>
          map_of ?formats (str ''text/plain'') = Some (str ''https://g.example/84.txt'') \<and>
          str ''https://g.example/84.txt'' \<noteq> [] \<and>
          (\<forall>j < i. map_of ?formats (candidates ! j) = None \<or>
                    map_of ?formats (candidates ! j) = Some [])"
    by (rule exI [of _ 1]) (simp add: candidates_def str_def)
  then show ?thesis
    using pickCandidate_priority [of ?formats "str ''https://g.example/84.txt''" "str ''text/plain''"]
    by blast
qed

section \<open>Properties of the classifier\<close>

lemma length_trim: "length (trim s) \<le> length s"
proof -
  have "length (dropWhile isWhiteSpace (rev (dropWhile isWhiteSpace s)))
      \<le> length (rev (dropWhile isWhiteSpace s))"
    by (rule length_dropWhile_le)
  moreover have "length (dropWhile isWhiteSpace s) \<le> length s"
    by (rule length_dropWhile_le)
  ultimately show ?thesis
    by (simp add: trim_def)
qed

lemma isListLine_Nil: "\<not> isListLine []"
  by (simp add: isListLine_def)

lemma isListLine_Cons_ws: "isWhiteSpace c \<Longrightarrow> isListLine (c # l) = isListLine l"
  by (simp add: isListLine_def)

lemma isListLine_snoc_ws:
  assumes "isWhiteSpace c"
  shows "isListLine (l @ [c]) = isListLine l"
proof (cases "\<forall>x \<in> set l. isWhiteSpace x")
  case True
  then have d: "dropWhile isWhiteSpace (l @ [c]) = []" "dropWhile isWhiteSpace l = []"
    using assms by (simp_all add: dropWhile_eq_Nil_conv)
  show ?thesis unfolding isListLine_def d by simp
next
  case False
  then obtain x where "x \<in> set l" "\<not> isWhiteSpace x" by blast
  then have "dropWhile isWhiteSpace (l @ [c]) = dropWhile isWhiteSpace l @ [c]"
    by (rule dropWhile_append1)
  moreover have "dropWhile isWhiteSpace l \<noteq> []"
    using False by simp
  ultimately show ?thesis
    by (cases "dropWhile isWhiteSpace l") (simp_all add: isListLine_def)
qed

lemma listy_Cons_ws:
  assumes "isWhiteSpace c"
  shows "listy (c # s) = listy s"
proof (cases "c = 0x0A")
  case True
  then show ?thesis by (simp add: listy_def isListLine_Nil)
next
  case False
  obtain piece pieces where sp: "splitOn 0x0A s = piece # pieces"
    using splitOn_not_Nil [of "0x0A" s] by (cases "splitOn 0x0A s") auto
  with False assms show ?thesis
    by (simp add: listy_def isListLine_Cons_ws)
qed

lemma listy_dropWhile: "listy (dropWhile isWhiteSpace s) = listy s"
  by (induction s) (simp_all add: listy_Cons_ws)

lemma splitOn_snoc:
  "splitOn d (s @ [c]) =
     (if c = d then splitOn d s @ [[]]
      else butlast (splitOn d s) @ [last (splitOn d s) @ [c]])"
proof (induction s)
  case Nil
  then show ?case by simp
next
  case (Cons a s)
  obtain piece pieces where sp: "splitOn d s = piece # pieces"
    using splitOn_not_Nil [of d s] by (cases "splitOn d s") auto
  show ?case
  proof (cases "c = d")
    case True
    with Cons sp show ?thesis by simp
  next
    case False
    with Cons sp show ?thesis by (cases pieces) auto
  qed
qed

lemma listy_snoc_ws:
  assumes "isWhiteSpace c"
  shows "listy (s @ [c]) = listy s"
proof (cases "c = 0x0A")
  case True
  then show ?thesis by (simp add: listy_def splitOn_snoc isListLine_Nil)
next
  case False
  let ?L = "splitOn 0x0A s"
  have L: "?L = butlast ?L @ [last ?L]"
    using splitOn_not_Nil [of "0x0A" s] by simp
  have "length (filter isListLine (butlast ?L @ [last ?L @ [c]]))
      = length (filter isListLine (butlast ?L @ [last ?L]))"
    unfolding filter_append using isListLine_snoc_ws [OF assms, of "last ?L"] by simp
  moreover have "splitOn 0x0A (s @ [c]) = butlast ?L @ [last ?L @ [c]]"
    using False by (simp only: splitOn_snoc if_False)
  ultimately have "listy (s @ [c]) = length (filter isListLine (butlast ?L @ [last ?L]))"
    by (simp only: listy_def)
  also have "\<dots> = listy s"
    using L by (simp only: listy_def)
  finally show ?thesis .
qed

lemma listy_trimEnd: "listy (rev (dropWhile isWhiteSpace (rev s))) = listy s"
proof (induction s rule: rev_induct)
  case Nil
  then show ?case by simp
next
  case (snoc x xs)
  then show ?case by (simp add: listy_snoc_ws)
qed

lemma listy_trim: "listy (trim s) = listy s"
  unfolding trim_def by (simp only: listy_trimEnd listy_dropWhile)

lemma bad_Category: "isBadWikisourceTitle (trim (str ''Category:Novels''))"
  by (simp add: isBadWikisourceTitle_def trim_def isWhiteSpace_def badPrefixes_def str_def)

lemma set_trim: "set (trim s) \<subseteq> set s"
proof
  fix x assume "x \<in> set (trim s)"
  then have "x \<in> set (dropWhile isWhiteSpace (rev (dropWhile isWhiteSpace s)))"
    by (simp add: trim_def)
  then have "x \<in> set (rev (dropWhile isWhiteSpace s))"
    by (rule set_dropWhileD)
  then have "x \<in> set (dropWhile isWhiteSpace s)"
    by simp
  then show "x \<in> set s"
    by (rule set_dropWhileD)
qed

lemma trim_not_Nil:
  assumes "\<not> isWhiteSpace c"
  shows "trim (c # s) \<noteq> []"
proof -
  have "dropWhile isWhiteSpace (c # s) = c # s" using assms by simp
  moreover have "c \<in> set (rev (c # s))" by simp
  then have "dropWhile isWhiteSpace (rev (c # s)) \<noteq> []"
    using assms unfolding dropWhile_eq_Nil_conv by blast
  ultimately show ?thesis by (simp add: trim_def)
qed

lemma testAnywhere_none:
  assumes "\<not> m []" "\<And>c cs. m (c # cs) \<Longrightarrow> P c" "\<forall>c \<in> set x. \<not> P c"
  shows "\<not> testAnywhere m x"
  using assms(3)
proof (induction x)
  case Nil
  then show ?case using assms(1) by simp
next
  case (Cons c cs)
  then show ?case using assms(2) [of c cs] by auto
qed

lemma canonicalize_low: "unat c < 0x100 \<Longrightarrow> unat (canonicalize c) < 0x100"
proof -
  assume a: "unat c < 0x100"
  then have "canonicalize c = (if 0x61 \<le> unat c \<and> unat c \<le> 0x7A then of_nat (unat c - 0x20) else c)"
    by (auto simp: canonicalize_def Let_def)
  moreover have "unat (of_nat (unat c - 0x20) :: jschar) = unat c - 0x20"
    using a by (intro unat_of_nat16) simp
  ultimately show ?thesis using a by auto
qed

lemma canonicalize_W: "unat c < 0x100 \<Longrightarrow> canonicalize c = 0x57 \<Longrightarrow> c = 0x77 \<or> c = 0x57"
proof -
  assume a: "unat c < 0x100" and w: "canonicalize c = 0x57"
  show ?thesis
  proof (cases "0x61 \<le> unat c \<and> unat c \<le> 0x7A")
    case True
    then have "canonicalize c = of_nat (unat c - 0x20)"
      by (simp add: canonicalize_def Let_def)
    with w have "unat (of_nat (unat c - 0x20) :: jschar) = 0x57" by simp
    moreover have "unat (of_nat (unat c - 0x20) :: jschar) = unat c - 0x20"
      using a by (intro unat_of_nat16) simp
    ultimately have "unat c = 0x77" using True by arith
    then have "unat c = unat (0x77 :: jschar)" by simp
    then have "c = 0x77" by (rule unsigned_word_eqI)
    then show ?thesis by simp
  next
    case False
    with a have "canonicalize c = c" by (auto simp: canonicalize_def Let_def)
    with w show ?thesis by simp
  qed
qed

lemma canonicalize_equals: "canonicalize c = 0x3D \<Longrightarrow> unat c < 0x100 \<Longrightarrow> c = 0x3D"
proof -
  assume w: "canonicalize c = 0x3D" and a: "unat c < 0x100"
  show ?thesis
  proof (cases "0x61 \<le> unat c \<and> unat c \<le> 0x7A")
    case True
    then have "canonicalize c = of_nat (unat c - 0x20)"
      by (simp add: canonicalize_def Let_def)
    with w have "unat (of_nat (unat c - 0x20) :: jschar) = 0x3D" by simp
    moreover have "unat (of_nat (unat c - 0x20) :: jschar) = unat c - 0x20"
      using a by (intro unat_of_nat16) simp
    ultimately have False using True by arith
    then show ?thesis ..
  next
    case False
    with a have "canonicalize c = c" by (auto simp: canonicalize_def Let_def)
    with w show ?thesis by simp
  qed
qed

lemma matchIgnoreCase_head:
  "matchIgnoreCase (p # ps) (c # cs) \<noteq> None \<Longrightarrow> canonicalize c = canonicalize p"
  by (simp split: if_splits)

lemma no_works_keyword:
  assumes "\<forall>c \<in> set x. unat c < 0x100 \<and> c \<noteq> 0x77 \<and> c \<noteq> 0x57"
  shows "\<not> hasWorksKeyword x"
  unfolding hasWorksKeyword_def
proof (rule testAnywhere_none [where P = "\<lambda>c. \<not> (unat c < 0x100 \<and> c \<noteq> 0x77 \<and> c \<noteq> 0x57)"])
  show "\<not> matchesOneOf [wordProizvedeniya, wordTvory, str ''Works''] []"
    by (simp add: matchesOneOf_def wordProizvedeniya_def wordTvory_def str_def)
next
  fix c cs
  assume m: "matchesOneOf [wordProizvedeniya, wordTvory, str ''Works''] (c # cs)"
  show "\<not> (unat c < 0x100 \<and> c \<noteq> 0x77 \<and> c \<noteq> 0x57)"
  proof
    assume a: "unat c < 0x100 \<and> c \<noteq> 0x77 \<and> c \<noteq> 0x57"
    from m have "canonicalize c = canonicalize 0x41F \<or> canonicalize c = canonicalize 0x422
        \<or> canonicalize c = canonicalize 0x57"
      by (auto simp: matchesOneOf_def wordProizvedeniya_def wordTvory_def str_def split: if_splits)
    then have "canonicalize c = 0x41F \<or> canonicalize c = 0x422 \<or> canonicalize c = 0x57"
      by (simp add: canonicalize_def)
    moreover have "unat (canonicalize c) < 0x100" using a canonicalize_low by simp
    ultimately have "canonicalize c = 0x57" by auto
    with a canonicalize_W [of c] show False by simp
  qed
next
  show "\<forall>c \<in> set x. \<not> \<not> (unat c < 0x100 \<and> c \<noteq> 0x77 \<and> c \<noteq> 0x57)"
    using assms by simp
qed

lemma no_contents_keyword:
  assumes "\<forall>c \<in> set x. unat c < 0x100"
  shows "\<not> hasContentsKeyword x"
  unfolding hasContentsKeyword_def
proof (rule testAnywhere_none [where P = "\<lambda>c. \<not> unat c < 0x100"])
  show "\<not> matchesOneOf [wordOglavlenie, wordZmist, wordSoderzhanie] []"
    by (simp add: matchesOneOf_def wordOglavlenie_def wordZmist_def wordSoderzhanie_def)
next
  fix c cs
  assume m: "matchesOneOf [wordOglavlenie, wordZmist, wordSoderzhanie] (c # cs)"
  show "\<not> unat c < 0x100"
  proof
    assume a: "unat c < 0x100"
    from m have "canonicalize c = canonicalize 0x41E \<or> canonicalize c = canonicalize 0x417
        \<or> canonicalize c = canonicalize 0x421"
      by (auto simp: matchesOneOf_def wordOglavlenie_def wordZmist_def wordSoderzhanie_def split: if_splits)
    then have "canonicalize c = 0x41E \<or> canonicalize c = 0x417 \<or> canonicalize c = 0x421"
      by (simp add: canonicalize_def)
    moreover have "unat (canonicalize c) < 0x100" using a canonicalize_low by simp
    ultimately show False by auto
  qed
next
  show "\<forall>c \<in> set x. \<not> \<not> unat c < 0x100"
    using assms by simp
qed

lemma no_contents_heading:
  assumes "\<forall>c \<in> set x. unat c < 0x100 \<and> c \<noteq> 0x3D"
  shows "\<not> hasContentsHeading x"
  unfolding hasContentsHeading_def
proof (rule testAnywhere_none [where P = "\<lambda>c. \<not> (unat c < 0x100 \<and> c \<noteq> 0x3D)"])
  show "\<not> contentsHeadingAt []"
    by (simp add: contentsHeadingAt_def str_def)
next
  fix c cs
  assume m: "contentsHeadingAt (c # cs)"
  show "\<not> (unat c < 0x100 \<and> c \<noteq> 0x3D)"
  proof
    assume a: "unat c < 0x100 \<and> c \<noteq> 0x3D"
    have eq: "str ''=='' = 0x3D # [0x3D]" by (simp add: str_def)
    from m have "matchIgnoreCase (0x3D # [0x3D]) (c # cs) \<noteq> None"
      unfolding contentsHeadingAt_def eq
      by (cases "matchIgnoreCase (0x3D # [0x3D]) (c # cs)") simp_all
    then have "canonicalize c = canonicalize 0x3D"
      by (rule matchIgnoreCase_head)
    then have "canonicalize c = 0x3D" by (simp add: canonicalize_def)
    with a canonicalize_equals [of c] show False by simp
  qed
next
  show "\<forall>c \<in> set x. \<not> \<not> (unat c < 0x100 \<and> c \<noteq> 0x3D)"
    using assms by simp
qed

lemma sampleWorkPage_chars:
  "list_all (\<lambda>c. unat c < 0x100 \<and> c \<noteq> 0x77 \<and> c \<noteq> 0x57 \<and> c \<noteq> 0x3D) sampleWorkPage"
  by (simp add: sampleWorkPage_def str_def)

lemma sampleWorkPage_listy: "length sampleWorkPage = 500 \<and> listy sampleWorkPage = 3"
  by (simp add: sampleWorkPage_def str_def listy_def isListLine_def isWhiteSpace_def)

lemma sampleListPage_listy: "length sampleListPage = 500 \<and> listy sampleListPage = 10"
  by (simp add: sampleListPage_def str_def listy_def isListLine_def isWhiteSpace_def)

lemma sampleWorkPage_head: "\<exists>rest. sampleWorkPage = 0x2A # rest"
  by (simp add: sampleWorkPage_def str_def)

text \<open>
  C3. (a) A page titled \<open>Category:Novels\<close> is classified not-a-work whatever its text.
  (b) A page whose text has fewer than 2000 characters and at least 8 list lines (lines that
  start, after white space, with \<open>*\<close>, \<open>-\<close> or a bullet) is classified not-a-work, whatever
  its title. (c) A page under a title outside the namespace prefixes whose text is not blank,
  has fewer than 8 list lines and matches none of the contents and works patterns is
  classified as a work. The witness is a page of 500 characters with 10 list lines, and the
  same page with 3 list lines.
\<close>

theorem looksLikeIndexOrList_classifier:
  "looksLikeIndexOrList (str ''Category:Novels'') text \<and>
   (length text < 2000 \<and> 8 \<le> listy text \<longrightarrow> looksLikeIndexOrList pageTitle text) \<and>
   (\<not> isBadWikisourceTitle (trim pageTitle) \<and> trim text \<noteq> [] \<and> listy text < 8 \<and>
    \<not> hasContentsHeading (trim text) \<and> \<not> hasContentsKeyword (trim text) \<and>
    \<not> hasWorksKeyword (trim text) \<longrightarrow> \<not> looksLikeIndexOrList pageTitle text)"
proof (intro conjI impI)
  show "looksLikeIndexOrList (str ''Category:Novels'') text"
    using bad_Category by (simp add: looksLikeIndexOrList_def)
next
  assume a: "length text < 2000 \<and> 8 \<le> listy text"
  then have "length (trim text) < 2000" "8 \<le> listy (trim text)"
    using length_trim [of "text"] by (simp_all add: listy_trim)
  then show "looksLikeIndexOrList pageTitle text"
    by (simp add: looksLikeIndexOrList_def Let_def)
next
  assume a: "\<not> isBadWikisourceTitle (trim pageTitle) \<and> trim text \<noteq> [] \<and> listy text < 8 \<and>
    \<not> hasContentsHeading (trim text) \<and> \<not> hasContentsKeyword (trim text) \<and>
    \<not> hasWorksKeyword (trim text)"
  then have "\<not> 8 \<le> listy (trim text)" by (simp add: listy_trim)
  with a show "\<not> looksLikeIndexOrList pageTitle text"
    by (simp add: looksLikeIndexOrList_def Let_def)
qed

theorem looksLikeIndexOrList_classifier_witness:
  "length sampleListPage = 500 \<and> listy sampleListPage = 10 \<and>
   looksLikeIndexOrList (str ''War and Peace'') sampleListPage \<and>
   length sampleWorkPage = 500 \<and> listy sampleWorkPage = 3 \<and>
   \<not> looksLikeIndexOrList (str ''War and Peace'') sampleWorkPage \<and>
   looksLikeIndexOrList (str ''Category:Novels'') sampleWorkPage"
proof -
  have t: "\<not> isBadWikisourceTitle (trim (str ''War and Peace''))"
    by (simp add: isBadWikisourceTitle_def trim_def isWhiteSpace_def badPrefixes_def str_def)
  obtain rest where "sampleWorkPage = 0x2A # rest"
    using sampleWorkPage_head by blast
  moreover have "\<not> isWhiteSpace 0x2A"
    by (simp add: isWhiteSpace_def)
  ultimately have ne: "trim sampleWorkPage \<noteq> []"
    using trim_not_Nil [of "0x2A" rest] by simp
  have ch: "\<forall>c \<in> set (trim sampleWorkPage). unat c < 0x100 \<and> c \<noteq> 0x77 \<and> c \<noteq> 0x57 \<and> c \<noteq> 0x3D"
    using sampleWorkPage_chars set_trim [of sampleWorkPage] unfolding list_all_iff by blast
  have rx: "\<not> hasContentsHeading (trim sampleWorkPage)" "\<not> hasContentsKeyword (trim sampleWorkPage)"
    "\<not> hasWorksKeyword (trim sampleWorkPage)"
    using ch by (simp_all add: no_contents_heading no_contents_keyword no_works_keyword)
  from looksLikeIndexOrList_classifier [of sampleListPage "str ''War and Peace''"]
    looksLikeIndexOrList_classifier [of sampleWorkPage "str ''War and Peace''"]
    sampleListPage_listy sampleWorkPage_listy t ne rx
  show ?thesis by simp
qed

section \<open>Properties of the wiki download\<close>

lemma followLinks_calls:
  "\<exists>extra. snd (followLinks env apiUrl hop rt tx calls) = calls @ extra \<and>
      length (filter isPlainCall extra) \<le> 2 - hop \<and> length extra \<le> 2 * (2 - hop)"
proof (induction env apiUrl hop rt tx calls rule: followLinks.induct)
  case (1 env apiUrl hop resolvedTitle tx calls)
  show ?case
  proof (cases "hop < 2")
    case False
    then show ?thesis by (simp add: followLinks.simps)
  next
    case hop: True
    show ?thesis
    proof (cases "looksLikeIndexOrList resolvedTitle tx")
      case False
      with hop show ?thesis by (simp add: followLinks.simps)
    next
      case looks: True
      show ?thesis
      proof (cases "getWikisourceCandidateLinks env apiUrl resolvedTitle 120")
        case (Inl e)
        with hop looks have "snd (followLinks env apiUrl hop resolvedTitle tx calls)
            = calls @ [LinksCall resolvedTitle]"
          by (simp add: followLinks.simps)
        with hop show ?thesis by simp
      next
        case links: (Inr links)
        show ?thesis
        proof (cases "pickBestLink resolvedTitle links")
          case None
          with hop looks links have "snd (followLinks env apiUrl hop resolvedTitle tx calls)
              = calls @ [LinksCall resolvedTitle]"
            by (simp add: followLinks.simps)
          with hop show ?thesis by simp
        next
          case best: (Some best)
          show ?thesis
          proof (cases "getWikisourcePlain env apiUrl best")
            case (Inl e)
            with hop looks links best have "snd (followLinks env apiUrl hop resolvedTitle tx calls)
                = calls @ [LinksCall resolvedTitle, PlainCall best]"
              by (simp add: followLinks.simps)
            with hop show ?thesis by simp arith
          next
            case (Inr page)
            obtain nextTitle nextText where page: "page = (nextTitle, nextText)"
              by (cases page)
            show ?thesis
            proof (cases "nextTitle = resolvedTitle")
              case True
              with hop looks links best Inr page
              have "snd (followLinks env apiUrl hop resolvedTitle tx calls)
                  = calls @ [LinksCall resolvedTitle, PlainCall best]"
                by (simp add: followLinks.simps)
              with hop show ?thesis by simp arith
            next
              case False
              with hop looks links best Inr page
              have step: "followLinks env apiUrl hop resolvedTitle tx calls
                  = followLinks env apiUrl (hop + 1) nextTitle nextText
                      (calls @ [LinksCall resolvedTitle, PlainCall best])"
                by (simp add: followLinks.simps)
              from "1.IH" [OF hop _ links best Inr page [symmetric] False] looks
              obtain extra where e: "snd (followLinks env apiUrl (hop + 1) nextTitle nextText
                      (calls @ [LinksCall resolvedTitle, PlainCall best]))
                  = (calls @ [LinksCall resolvedTitle, PlainCall best]) @ extra"
                "length (filter isPlainCall extra) \<le> 2 - (hop + 1)"
                "length extra \<le> 2 * (2 - (hop + 1))"
                by auto
              have "snd (followLinks env apiUrl hop resolvedTitle tx calls)
                  = calls @ ([LinksCall resolvedTitle, PlainCall best] @ extra)"
                using step e(1) by simp
              moreover have "length (filter isPlainCall ([LinksCall resolvedTitle, PlainCall best] @ extra))
                  \<le> 2 - hop"
                using e(2) hop by simp
              moreover have "length ([LinksCall resolvedTitle, PlainCall best] @ extra) \<le> 2 * (2 - hop)"
                using e(3) hop by simp
              ultimately show ?thesis by blast
            qed
          qed
        qed
      qed
    qed
  qed
qed

lemma not_index_page:
  assumes "\<not> isBadWikisourceTitle (trim pt)" "\<not> isWhiteSpace c" "listy (c # rest) < 8"
    "list_all (\<lambda>c. unat c < 0x100 \<and> c \<noteq> 0x77 \<and> c \<noteq> 0x57 \<and> c \<noteq> 0x3D) (c # rest)"
  shows "\<not> looksLikeIndexOrList pt (c # rest)"
proof -
  let ?x = "trim (c # rest)"
  have ne: "?x \<noteq> []" using trim_not_Nil [OF assms(2)] .
  have ch: "\<forall>c \<in> set ?x. unat c < 0x100 \<and> c \<noteq> 0x77 \<and> c \<noteq> 0x57 \<and> c \<noteq> 0x3D"
    using assms(4) set_trim [of "c # rest"] unfolding list_all_iff by blast
  have rx: "\<not> hasContentsHeading ?x" "\<not> hasContentsKeyword ?x" "\<not> hasWorksKeyword ?x"
    using ch by (simp_all add: no_contents_heading no_contents_keyword no_works_keyword)
  have "\<not> 8 \<le> listy ?x" using assms(3) by (simp add: listy_trim)
  with assms(1) ne rx show ?thesis
    by (simp add: looksLikeIndexOrList_def Let_def)
qed

lemma looks_blank: "looksLikeIndexOrList pt []"
  by (simp add: looksLikeIndexOrList_def trim_def Let_def)

lemmas wiki_eval = getWikisourcePlain_def getWikisourceCandidateLinks_def fetchJson_def
  pickBestLink_def

lemma samplePoem_work: "\<not> looksLikeIndexOrList (str ''Dover Beach'') samplePoem"
proof -
  have t: "\<not> isBadWikisourceTitle (trim (str ''Dover Beach''))"
    by (simp add: isBadWikisourceTitle_def trim_def isWhiteSpace_def badPrefixes_def str_def)
  obtain rest where r: "samplePoem = 0x54 # rest"
    by (simp add: samplePoem_def str_def)
  have "listy samplePoem < 8"
    by (simp add: samplePoem_def str_def listy_def isListLine_def isWhiteSpace_def)
  moreover have "list_all (\<lambda>c. unat c < 0x100 \<and> c \<noteq> 0x77 \<and> c \<noteq> 0x57 \<and> c \<noteq> 0x3D) samplePoem"
    by (simp add: samplePoem_def str_def)
  moreover have "\<not> isWhiteSpace 0x54" by (simp add: isWhiteSpace_def)
  ultimately show ?thesis
    using not_index_page [OF t, of "0x54" rest] r by simp
qed

lemma trim_samplePoem: "trim samplePoem = samplePoem"
  by (simp add: samplePoem_def str_def trim_def isWhiteSpace_def)

lemma workWiki_plain:
  "getWikisourcePlain workWiki WS_RU (str ''Dover Beach'') = Inr (str ''Dover Beach'', samplePoem)"
proof -
  have "encodeURIComponent (str ''Dover Beach'') = Some (str ''Dover%20Beach'')"
    by (simp add: uri_eval)
  then show ?thesis
    by (simp add: wiki_eval workWiki_def trim_samplePoem)
qed

lemma deadEndWiki_plain:
  "getWikisourcePlain deadEndWiki WS_RU (str ''Poems'') = Inr (str ''Poems'', [])"
proof -
  have "encodeURIComponent (str ''Poems'') = Some (str ''Poems'')"
    by (simp add: uri_eval)
  then show ?thesis
    by (simp add: wiki_eval deadEndWiki_def trim_def)
qed

lemma deadEndWiki_links:
  "getWikisourceCandidateLinks deadEndWiki WS_RU (str ''Poems'') 120 = Inr [] \<and>
   pickBestLink (str ''Poems'') [] = None"
proof -
  have "encodeURIComponent (str ''Poems'') = Some (str ''Poems'')"
    by (simp add: uri_eval)
  then show ?thesis
    by (simp add: wiki_eval deadEndWiki_def)
qed

lemma chainWiki_two_hops:
  "downloadWikisourceSmartCalls chainWiki WS_RU (str ''A'') =
     (Inl IndexPageNotResolvable,
      [PlainCall (str ''A''), LinksCall (str ''A''), PlainCall (str ''Ax''),
       LinksCall (str ''Ax''), PlainCall (str ''Axx'')])"
proof -
  have enc: "encodeURIComponent (str ''A'') = Some (str ''A'')"
    "encodeURIComponent (str ''Ax'') = Some (str ''Ax'')"
    "encodeURIComponent (str ''Axx'') = Some (str ''Axx'')"
    by (simp_all add: uri_eval)
  have plain: "getWikisourcePlain chainWiki WS_RU (str ''A'') = Inr (str ''A'', [])"
    "getWikisourcePlain chainWiki WS_RU (str ''Ax'') = Inr (str ''Ax'', [])"
    "getWikisourcePlain chainWiki WS_RU (str ''Axx'') = Inr (str ''Axx'', [])"
    using enc by (simp_all add: wiki_eval chainWiki_def trim_def str_def)
  have links: "getWikisourceCandidateLinks chainWiki WS_RU (str ''A'') 120 = Inr [str ''Ax'']"
    "getWikisourceCandidateLinks chainWiki WS_RU (str ''Ax'') 120 = Inr [str ''Axx'']"
    using enc by (simp_all add: wiki_eval chainWiki_def str_def)
  have pick: "pickBestLink (str ''A'') [str ''Ax''] = Some (str ''Ax'')"
    "pickBestLink (str ''Ax'') [str ''Axx''] = Some (str ''Axx'')"
    by (simp_all add: pickBestLink_def trim_def isWhiteSpace_def isBadWikisourceTitle_def
        badPrefixes_def str_def)
  have neq: "str ''Ax'' \<noteq> str ''A''" "str ''Axx'' \<noteq> str ''Ax''"
    by (simp_all add: str_def)
  have "followLinks chainWiki WS_RU (Suc (Suc 0)) (str ''Axx'') []
          [PlainCall (str ''A''), LinksCall (str ''A''), PlainCall (str ''Ax''),
           LinksCall (str ''Ax''), PlainCall (str ''Axx'')]
      = (Inr (str ''Axx'', []), [PlainCall (str ''A''), LinksCall (str ''A''), PlainCall (str ''Ax''),
           LinksCall (str ''Ax''), PlainCall (str ''Axx'')])"
    by (simp add: followLinks.simps)
  then have "followLinks chainWiki WS_RU 1 (str ''Ax'') []
          [PlainCall (str ''A''), LinksCall (str ''A''), PlainCall (str ''Ax'')]
      = (Inr (str ''Axx'', []), [PlainCall (str ''A''), LinksCall (str ''A''), PlainCall (str ''Ax''),
           LinksCall (str ''Ax''), PlainCall (str ''Axx'')])"
    using links(2) pick(2) plain(3) neq(2) looks_blank
    by (subst followLinks.simps) simp
  then have "followLinks chainWiki WS_RU 0 (str ''A'') [] [PlainCall (str ''A'')]
      = (Inr (str ''Axx'', []), [PlainCall (str ''A''), LinksCall (str ''A''), PlainCall (str ''Ax''),
           LinksCall (str ''Ax''), PlainCall (str ''Axx'')])"
    using links(1) pick(1) plain(2) neq(1) looks_blank
    by (subst followLinks.simps) simp
  then show ?thesis
    using plain(1) looks_blank
    by (simp add: downloadWikisourceSmartCalls_def finishDownload_def)
qed

text \<open>
  C2. For every wiki, every API address and every starting title, a run of the smart download
  makes at most two link-follow hops (calls of \<open>getWikisourcePlain\<close> after the first), at most
  three such calls and at most five calls in all, whatever the pages are classified as. The
  bound is reached when every page is not-a-work: see \<open>chainWiki_two_hops\<close>.
\<close>

theorem downloadWikisourceSmart_hops:
  "linkFollowHops (snd (downloadWikisourceSmartCalls env apiUrl t)) \<le> 2 \<and>
   length (filter isPlainCall (snd (downloadWikisourceSmartCalls env apiUrl t))) \<le> 3 \<and>
   length (snd (downloadWikisourceSmartCalls env apiUrl t)) \<le> 5"
proof (cases "getWikisourcePlain env apiUrl t")
  case (Inl e)
  then show ?thesis
    by (simp add: downloadWikisourceSmartCalls_def linkFollowHops_def)
next
  case (Inr page)
  obtain resolvedTitle tx where page: "page = (resolvedTitle, tx)"
    by (cases page)
  obtain extra where e: "snd (followLinks env apiUrl 0 resolvedTitle tx [PlainCall t]) = [PlainCall t] @ extra"
    "length (filter isPlainCall extra) \<le> 2 - 0" "length extra \<le> 2 * (2 - 0)"
    using followLinks_calls [of env apiUrl 0 resolvedTitle tx "[PlainCall t]"] by blast
  have "snd (downloadWikisourceSmartCalls env apiUrl t) = PlainCall t # extra"
    using Inr page e(1) by (simp add: downloadWikisourceSmartCalls_def case_prod_unfold)
  with e(2,3) show ?thesis
    by (simp add: linkFollowHops_def)
qed

lemma followLinks_no_candidate:
  assumes "hop < 2" "looksLikeIndexOrList rt tx"
    "getWikisourceCandidateLinks env apiUrl rt 120 = Inr links" "pickBestLink rt links = None"
  shows "fst (followLinks env apiUrl hop rt tx calls) = Inr (rt, tx)"
  using assms by (simp add: followLinks.simps)

lemma finishDownload_index:
  "looksLikeIndexOrList rt tx \<Longrightarrow> finishDownload (Inr (rt, tx)) = Inl IndexPageNotResolvable"
  by (simp add: finishDownload_def)

lemma finishDownload_Inr:
  assumes "finishDownload state = Inr f"
  shows "\<exists>tx. state = Inr (file_title f, tx) \<and> tx \<noteq> [] \<and>
           \<not> looksLikeIndexOrList (file_title f) tx \<and> file_buffer f = utf8Buffer tx"
proof (cases state)
  case (Inl e)
  with assms show ?thesis by (simp add: finishDownload_def)
next
  case (Inr p)
  obtain rt tx where p: "p = (rt, tx)" by (cases p)
  with Inr assms have "tx \<noteq> [] \<and> \<not> looksLikeIndexOrList rt tx \<and>
      f = \<lparr> file_title = rt, file_mime = str ''text/plain; charset=utf-8'',
            file_ext = str ''txt'', file_buffer = utf8Buffer tx \<rparr>"
    by (auto simp: finishDownload_def split: if_splits)
  with Inr p show ?thesis by auto
qed

lemma downloadWikisourceSmart_unfold:
  "getWikisourcePlain env apiUrl t = Inr (t0, x0) \<Longrightarrow>
     downloadWikisourceSmart env apiUrl t tag
       = finishDownload (fst (followLinks env apiUrl 0 t0 x0 [PlainCall t]))"
  by (simp add: downloadWikisourceSmart_def downloadWikisourceSmartCalls_def case_prod_unfold Let_def)

lemma downloadWikisourceSmart_Inr:
  assumes "downloadWikisourceSmart env apiUrl t tag = Inr f"
  shows "\<exists>tx. tx \<noteq> [] \<and> \<not> looksLikeIndexOrList (file_title f) tx \<and> file_buffer f = utf8Buffer tx"
proof (cases "getWikisourcePlain env apiUrl t")
  case (Inl e)
  with assms show ?thesis
    by (simp add: downloadWikisourceSmart_def downloadWikisourceSmartCalls_def)
next
  case (Inr p)
  obtain t0 x0 where p: "p = (t0, x0)" by (cases p)
  with Inr assms have "finishDownload (fst (followLinks env apiUrl 0 t0 x0 [PlainCall t])) = Inr f"
    by (simp add: downloadWikisourceSmart_unfold)
  from finishDownload_Inr [OF this] show ?thesis by blast
qed

text \<open>
  C4. A file returned by \<open>downloadWikisourceSmart\<close> holds a text that is not empty and is
  classified as a work under the returned title; when the page after the loop is classified
  not-a-work the download fails with \<open>IndexPageNotResolvable\<close>; when a not-a-work page has no
  candidate link, at either hop, the loop stops on that page and the download fails with
  \<open>IndexPageNotResolvable\<close>.
\<close>

theorem downloadWikisourceSmart_index_fails:
  "(downloadWikisourceSmart env apiUrl t tag = Inr f \<longrightarrow>
      (\<exists>tx. tx \<noteq> [] \<and> \<not> looksLikeIndexOrList (file_title f) tx \<and>
            file_buffer f = utf8Buffer tx)) \<and>
   (getWikisourcePlain env apiUrl t = Inr (t0, x0) \<and>
    fst (followLinks env apiUrl 0 t0 x0 [PlainCall t]) = Inr (t1, x1) \<and>
    looksLikeIndexOrList t1 x1 \<longrightarrow>
      downloadWikisourceSmart env apiUrl t tag = Inl IndexPageNotResolvable) \<and>
   (hop < 2 \<and> looksLikeIndexOrList rt x \<and>
    getWikisourceCandidateLinks env apiUrl rt 120 = Inr links \<and> pickBestLink rt links = None \<longrightarrow>
      finishDownload (fst (followLinks env apiUrl hop rt x calls)) = Inl IndexPageNotResolvable) \<and>
   (getWikisourcePlain env apiUrl t = Inr (t0, x0) \<and> looksLikeIndexOrList t0 x0 \<and>
    getWikisourceCandidateLinks env apiUrl t0 120 = Inr links0 \<and> pickBestLink t0 links0 = None \<longrightarrow>
      downloadWikisourceSmart env apiUrl t tag = Inl IndexPageNotResolvable)"
proof (intro conjI impI)
  assume "downloadWikisourceSmart env apiUrl t tag = Inr f"
  then show "\<exists>tx. tx \<noteq> [] \<and> \<not> looksLikeIndexOrList (file_title f) tx \<and>
            file_buffer f = utf8Buffer tx"
    by (rule downloadWikisourceSmart_Inr)
next
  assume a: "getWikisourcePlain env apiUrl t = Inr (t0, x0) \<and>
    fst (followLinks env apiUrl 0 t0 x0 [PlainCall t]) = Inr (t1, x1) \<and>
    looksLikeIndexOrList t1 x1"
  then show "downloadWikisourceSmart env apiUrl t tag = Inl IndexPageNotResolvable"
    by (simp add: downloadWikisourceSmart_unfold finishDownload_index)
next
  assume a: "hop < 2 \<and> looksLikeIndexOrList rt x \<and>
    getWikisourceCandidateLinks env apiUrl rt 120 = Inr links \<and> pickBestLink rt links = None"
  then have "fst (followLinks env apiUrl hop rt x calls) = Inr (rt, x)"
    by (simp add: followLinks_no_candidate)
  with a show "finishDownload (fst (followLinks env apiUrl hop rt x calls)) = Inl IndexPageNotResolvable"
    by (simp add: finishDownload_index)
next
  assume a: "getWikisourcePlain env apiUrl t = Inr (t0, x0) \<and> looksLikeIndexOrList t0 x0 \<and>
    getWikisourceCandidateLinks env apiUrl t0 120 = Inr links0 \<and> pickBestLink t0 links0 = None"
  then have "fst (followLinks env apiUrl 0 t0 x0 [PlainCall t]) = Inr (t0, x0)"
    by (simp add: followLinks_no_candidate)
  with a show "downloadWikisourceSmart env apiUrl t tag = Inl IndexPageNotResolvable"
    by (simp add: downloadWikisourceSmart_unfold finishDownload_index)
qed

theorem downloadWikisourceSmart_index_fails_witness:
  "downloadWikisourceSmart workWiki WS_RU (str ''Dover Beach'') (str ''wsrc-ru'') =
     Inr \<lparr> file_title = str ''Dover Beach'', file_mime = str ''text/plain; charset=utf-8'',
           file_ext = str ''txt'', file_buffer = utf8Buffer samplePoem \<rparr> \<and>
   (\<exists>tx. tx \<noteq> [] \<and> \<not> looksLikeIndexOrList (str ''Dover Beach'') tx \<and>
      utf8Buffer samplePoem = utf8Buffer tx) \<and>
   looksLikeIndexOrList (str ''Poems'') [] \<and>
   fst (followLinks deadEndWiki WS_RU 0 (str ''Poems'') [] [PlainCall (str ''Poems'')]) = Inr (str ''Poems'', []) \<and>
   finishDownload (fst (followLinks deadEndWiki WS_RU 1 (str ''Poems'') [] [])) = Inl IndexPageNotResolvable \<and>
   downloadWikisourceSmart deadEndWiki WS_RU (str ''Poems'') (str ''wsrc-ru'') = Inl IndexPageNotResolvable"
proof -
  let ?f = "\<lparr> file_title = str ''Dover Beach'', file_mime = str ''text/plain; charset=utf-8'',
           file_ext = str ''txt'', file_buffer = utf8Buffer samplePoem \<rparr>"
  have ne: "samplePoem \<noteq> []" by (simp add: samplePoem_def str_def)
  have "fst (followLinks workWiki WS_RU 0 (str ''Dover Beach'') samplePoem [PlainCall (str ''Dover Beach'')])
      = Inr (str ''Dover Beach'', samplePoem)"
    using samplePoem_work by (simp add: followLinks.simps)
  then have ok: "downloadWikisourceSmart workWiki WS_RU (str ''Dover Beach'') (str ''wsrc-ru'') = Inr ?f"
    using workWiki_plain samplePoem_work ne
    by (simp add: downloadWikisourceSmart_unfold finishDownload_def)
  have dead: "fst (followLinks deadEndWiki WS_RU 0 (str ''Poems'') [] [PlainCall (str ''Poems'')])
      = Inr (str ''Poems'', [])"
    using deadEndWiki_links looks_blank by (simp add: followLinks.simps)
  note main = downloadWikisourceSmart_index_fails
  from main [of workWiki WS_RU "str ''Dover Beach''" "str ''wsrc-ru''" ?f] ok
  have one: "\<exists>tx. tx \<noteq> [] \<and> \<not> looksLikeIndexOrList (str ''Dover Beach'') tx \<and>
      utf8Buffer samplePoem = utf8Buffer tx"
    by simp
  from main [of deadEndWiki WS_RU "str ''Poems''" "str ''wsrc-ru''" _ "str ''Poems''" "[]" "str ''Poems''" "[]"]
    deadEndWiki_plain dead looks_blank
  have two: "downloadWikisourceSmart deadEndWiki WS_RU (str ''Poems'') (str ''wsrc-ru'') = Inl IndexPageNotResolvable"
    by simp
  from main [of deadEndWiki WS_RU _ _ _ _ _ _ _ 1 "str ''Poems''" "[]" "[]" "[]"]
    deadEndWiki_links looks_blank
  have three: "finishDownload (fst (followLinks deadEndWiki WS_RU 1 (str ''Poems'') [] [])) = Inl IndexPageNotResolvable"
    by simp
  from ok one looks_blank dead three two show ?thesis by blast
qed

section \<open>Properties of the search\<close>

lemma set_insertSorted: "set (insertSorted cmp x ys) = insert x (set ys)"
  by (induction ys) auto

lemma length_insertSorted: "length (insertSorted cmp x ys) = Suc (length ys)"
  by (induction ys) auto

lemma set_sortJS: "set (sortJS cmp xs) = set xs"
  by (induction xs) (simp_all add: set_insertSorted)

lemma length_sortJS: "length (sortJS cmp xs) = length xs"
  by (induction xs) (simp_all add: length_insertSorted)

lemma sorted_insertSorted:
  "sorted_wrt (\<lambda>a b. f a \<le> (f b :: int)) ys \<Longrightarrow>
     sorted_wrt (\<lambda>a b. f a \<le> f b) (insertSorted (\<lambda>a b. f a - f b) x ys)"
proof (induction ys)
  case Nil
  then show ?case by simp
next
  case (Cons y ys)
  show ?case
  proof (cases "f x - f y \<le> 0")
    case True
    then have "\<forall>z \<in> set (y # ys). f x \<le> f z"
      using Cons.prems by auto
    with True Cons.prems show ?thesis by simp
  next
    case False
    then have "\<forall>z \<in> set (insertSorted (\<lambda>a b. f a - f b) x ys). f y \<le> f z"
      using Cons.prems by (auto simp: set_insertSorted)
    with False Cons show ?thesis by simp
  qed
qed

lemma sorted_sortJS:
  "sorted_wrt (\<lambda>a b. f a \<le> (f b :: int)) (sortJS (\<lambda>a b. f a - f b) xs)"
  by (induction xs) (simp_all add: sorted_insertSorted)

lemma filter_insertSorted:
  "filter (\<lambda>y. f y = k) (insertSorted (\<lambda>a b. f a - (f b :: int)) x ys)
     = (if f x = k then x # filter (\<lambda>y. f y = k) ys else filter (\<lambda>y. f y = k) ys)"
  by (induction ys) auto

lemma filter_sortJS:
  "filter (\<lambda>y. f y = k) (sortJS (\<lambda>a b. f a - (f b :: int)) xs) = filter (\<lambda>y. f y = k) xs"
  by (induction xs) (simp_all add: filter_insertSorted)

lemma compareItems_weight: "compareItems cyr = (\<lambda>a b. weight cyr a - weight cyr b)"
  by (simp add: compareItems_def fun_eq_iff)

lemma sources_distinct:
  "str ''gutenberg'' \<noteq> str ''wsrc-ru''" "str ''gutenberg'' \<noteq> str ''wsrc-ua''"
  "str ''wsrc-ru'' \<noteq> str ''wsrc-ua''"
  by (simp_all add: str_def)

lemmas sort_eval = compareItems_def weight_def sampleItems_def sampleItem_def str_def

lemma collect_three:
  "collect [g, ru, ua] ([], False)
     = (fulfilledItems g @ fulfilledItems ru @ fulfilledItems ua,
        fulfilledMore g \<or> fulfilledMore ru \<or> fulfilledMore ua)"
  by (cases g; cases ru; cases ua) (auto simp: fulfilledItems_def fulfilledMore_def)

lemmas search_eval = searchGutenberg_def searchWikisource_def fetchJson_def partialUpstream_def
  wikisourceItem_def makeId_def

text \<open>
  The page number: small integers are Numbers as they are, an integer from \<open>2^1024\<close> on
  is an infinity, so a page written with more than 309 digits gives the default of
  \<open>safeInt\<close>; a search hit without title gets the identifier of the string \<open>undefined\<close>.
\<close>

lemma roundDouble_small: "\<bar>n\<bar> < 9007199254740992 \<Longrightarrow> roundDouble n = Finite n"
  by (simp add: roundDouble_def Let_def)

lemma parseInt_undefined: "parseInt (str ''undefined'') = NaN"
  by (simp add: parseInt_def str_def isWhiteSpace_def isDigit_def Let_def)

lemma parseInt_one: "parseInt (str ''1'') = Finite 1"
  by (simp add: parseInt_def str_def isWhiteSpace_def isDigit_def digitsValue_def roundDouble_small
      Let_def)

lemma parseInt_three: "parseInt (str ''3'') = Finite 3"
  by (simp add: parseInt_def str_def isWhiteSpace_def isDigit_def digitsValue_def roundDouble_small
      Let_def)

lemma roundDouble_ties_to_even:
  "roundDouble 9007199254740993 = Finite 9007199254740992 \<and>
   roundDouble 9007199254740995 = Finite 9007199254740996"
  by (simp add: roundDouble_def bitLength.simps Let_def)

lemma isCyrillicLetter_class:
  "isCyrillicLetter c \<longleftrightarrow>
     (0x410 \<le> unat c \<and> unat c \<le> 0x44F) \<or>
     unat c \<in> {0x401, 0x451, 0x406, 0x456, 0x407, 0x457, 0x404, 0x454, 0x490, 0x491}"
  unfolding isCyrillicLetter_def Let_def by auto

lemma bitLength_bounds: "0 < n \<Longrightarrow> 2 ^ (bitLength n - 1) \<le> n \<and> n < 2 ^ bitLength n"
proof (induction n rule: bitLength.induct)
  case (1 n)
  show ?case
  proof (cases "n = 1")
    case True
    then show ?thesis by (simp add: bitLength.simps)
  next
    case False
    with 1 have h: "0 < n div 2" by simp
    from 1 have n0: "\<not> n \<le> 0" by simp
    from "1.IH" [OF n0 h] have ih: "2 ^ (bitLength (n div 2) - 1) \<le> n div 2" "n div 2 < 2 ^ bitLength (n div 2)"
      by simp_all
    have pos: "0 < bitLength (n div 2)"
      using h by (subst bitLength.simps) simp
    have eq: "bitLength n = Suc (bitLength (n div 2))"
      using n0 by (subst bitLength.simps) simp
    have "2 ^ (bitLength n - 1) = (2::int) * 2 ^ (bitLength (n div 2) - 1)"
      using pos eq by (cases "bitLength (n div 2)") simp_all
    also have "\<dots> \<le> 2 * (n div 2)" using ih(1) by simp
    also have "\<dots> \<le> n" by simp
    finally have a: "2 ^ (bitLength n - 1) \<le> n" .
    have "n < 2 * (n div 2) + 2" by simp
    also have "\<dots> \<le> 2 * 2 ^ bitLength (n div 2)" using ih(2) by simp
    also have "\<dots> = 2 ^ bitLength n" using eq by simp
    finally have b: "n < 2 ^ bitLength n" .
    from a b show ?thesis by simp
  qed
qed

lemma roundDouble_overflow:
  assumes "2 ^ 1024 \<le> \<bar>n\<bar>"
  shows "roundDouble n = (if n < 0 then NegInfinity else PosInfinity)"
proof -
  define a where "a = \<bar>n\<bar>"
  define l where "l = bitLength a"
  define e where "e = l - 53"
  define q where "q = a div 2 ^ e"
  define q' where "q' = (if 2 ^ (e - 1) < a mod 2 ^ e \<or> (a mod 2 ^ e = 2 ^ (e - 1) \<and> odd q) then q + 1 else q)"
  have a: "2 ^ 1024 \<le> a" using assms by (simp add: a_def)
  then have apos: "0 < a" by simp
  from bitLength_bounds [OF apos] have b: "2 ^ (l - 1) \<le> a" "a < 2 ^ l"
    by (simp_all add: l_def)
  from a b(2) have "(2::int) ^ 1024 < 2 ^ l" by linarith
  then have l: "1024 < l" by (rule power_less_imp_less_exp [rotated]) simp
  then have le: "l - 1 = 52 + e" by (simp add: e_def)
  have "(2::int) ^ 52 = 2 ^ (l - 1) div 2 ^ e"
    unfolding le by (simp add: power_add)
  also have "\<dots> \<le> q"
    unfolding q_def using b(1) by (rule zdiv_mono1) simp
  finally have q: "2 ^ 52 \<le> q" .
  have "q \<le> q'" by (simp add: q'_def)
  with q have "2 ^ 52 \<le> q'" by linarith
  then have "(2::int) ^ 52 * 2 ^ e \<le> q' * 2 ^ e"
    by (rule mult_right_mono) simp
  moreover have "(2::int) ^ 1024 \<le> 2 ^ 52 * 2 ^ e"
    using l unfolding power_add [symmetric] by (intro power_increasing) (simp_all add: e_def)
  ultimately have v: "2 ^ 1024 \<le> q' * 2 ^ e" by linarith
  have big: "\<not> a < 2 ^ 53"
    using a by simp
  show ?thesis
    using v big unfolding roundDouble_def Let_def a_def [symmetric] l_def [symmetric] e_def [symmetric]
      q_def [symmetric] q'_def [symmetric]
    by simp
qed

lemma parseInt_digits:
  assumes "z \<noteq> []" "list_all isDigit z"
  shows "parseInt z = roundDouble (digitsValue z)"
proof -
  from assms obtain c r where z: "z = c # r" and c: "isDigit c" and r: "list_all isDigit r"
    by (cases z) auto
  have ws: "\<not> isWhiteSpace c"
    using c by (auto simp: isDigit_def isWhiteSpace_def Let_def)
  have sg: "c \<noteq> 0x2D" "c \<noteq> 0x2B"
    using c by (auto simp: isDigit_def)
  have tw: "takeWhile isDigit r = r"
    using r by (simp add: list_all_iff)
  have "parseInt (c # r) = roundDouble (digitsValue (c # r))"
    by (simp add: parseInt_def Let_def ws sg c tw)
  then show ?thesis by (simp only: z)
qed

lemma digitsValue_nonneg: "list_all isDigit z \<Longrightarrow> 0 \<le> digitsValue z"
proof -
  have "list_all isDigit z \<Longrightarrow> 0 \<le> a \<Longrightarrow> 0 \<le> foldl (\<lambda>a c. 10 * a + (uint c - 0x30)) a z" for a
  proof (induction z arbitrary: a)
    case Nil
    then show ?case by simp
  next
    case (Cons c z)
    from Cons.prems have "0x30 \<le> unat c"
      by (simp add: isDigit_def)
    then have "0x30 \<le> uint c"
      unfolding uint_nat by linarith
    with Cons.prems have "0 \<le> 10 * a + (uint c - 0x30)" by simp
    with Cons show ?case by simp
  qed
  then show "list_all isDigit z \<Longrightarrow> 0 \<le> digitsValue z"
    by (simp add: digitsValue_def)
qed

lemma safeInt_overflow:
  assumes "z \<noteq> []" "list_all isDigit z" "2 ^ 1024 \<le> digitsValue z"
  shows "safeInt z d = d"
proof -
  from assms(3) have "2 ^ 1024 \<le> \<bar>digitsValue z\<bar>" by linarith
  from roundDouble_overflow [OF this] digitsValue_nonneg [OF assms(2)]
  have "roundDouble (digitsValue z) = PosInfinity" by simp
  then show ?thesis
    by (simp add: safeInt_def parseInt_digits [OF assms(1,2)])
qed

lemma wikisourceItem_untitled:
  "wikisourceItem (str ''wsrc-ru'') None =
     Inr \<lparr> item_id = str ''wsrc-ru:undefined'', item_title = None, item_author = [],
           item_lang = str ''ru'', item_source = str ''wsrc-ru'',
           item_formats = [str ''text/plain''] \<rparr>"
  by (simp add: wikisourceItem_def makeId_def uri_eval str_def)

lemma searchHandlerSequential_guarded:
  "trim qParam \<noteq> [] \<Longrightarrow>
   gutenberg (trim qParam) (clampInt pageParam 1 1 999) = Inr (gItems, gMore) \<Longrightarrow>
     searchHandlerSequential gutenberg standardEbooks qParam pageParam =
       Json200
         \<lparr> result_page = clampInt pageParam 1 1 999,
           result_hasMore =
             (gMore \<or> fulfilledMore (standardEbooks (trim qParam) (clampInt pageParam 1 1 999))),
           result_items =
             gItems @ fulfilledItems (standardEbooks (trim qParam) (clampInt pageParam 1 1 999)) \<rparr>"
  by (cases "standardEbooks (trim qParam) (clampInt pageParam 1 1 999)")
     (auto simp: searchHandlerSequential_def Let_def fulfilledItems_def fulfilledMore_def)

lemma searchHandlerSequential_unguarded:
  "trim qParam \<noteq> [] \<Longrightarrow> gutenberg (trim qParam) (clampInt pageParam 1 1 999) = Inl e \<Longrightarrow>
     searchHandlerSequential gutenberg standardEbooks qParam pageParam = Json500 e"
  by (simp add: searchHandlerSequential_def Let_def)

text \<open>
  C8, as stated, fails: the query below is the single letter \<open>U+045E\<close> (Cyrillic small
  letter short u, of the Belarusian alphabet), a character of the Cyrillic block
  \<open>U+0400-U+04FF\<close>; the class of \<open>hasCyr\<close> does not hold it, so the catalog item is sorted
  before the wiki item.
\<close>

theorem sortJS_compareItems_cyrillic_counterexample:
  "0x0400 \<le> unat (0x045E :: jschar) \<and> unat (0x045E :: jschar) \<le> 0x04FF \<and>
   \<not> hasCyr [0x045E] \<and>
   sortJS (compareItems (hasCyr [0x045E]))
     [sampleItem (str ''wsrc-ru'') (str ''A''), sampleItem (str ''gutenberg'') (str ''1'')]
   = [sampleItem (str ''gutenberg'') (str ''1''), sampleItem (str ''wsrc-ru'') (str ''A'')]"
  by (simp add: hasCyr_def isCyrillicLetter_def compareItems_def weight_def sampleItem_def str_def)

text \<open>
  C8, amended. The test of the query is the class of \<open>hasCyr\<close>: the letters
  \<open>U+0410-U+044F\<close> and \<open>U+0401 U+0451 U+0406 U+0456 U+0407 U+0457 U+0404 U+0454 U+0490
  U+0491\<close>, that is the Russian and the Ukrainian alphabet, not every Cyrillic character. For
  every list of items and every query, the sorted list is a rearrangement of the items in
  which: if the query has a letter of this class, no catalog item stands before a wiki item;
  if it has none, no other item stands before a catalog item; and the items of one weight
  are in their original order (the sort is stable).
\<close>

theorem sortJS_compareItems_order:
  "(hasCyr q \<longleftrightarrow>
      (\<exists>c \<in> set q. (0x410 \<le> unat c \<and> unat c \<le> 0x44F) \<or>
         unat c \<in> {0x401, 0x451, 0x406, 0x456, 0x407, 0x457, 0x404, 0x454, 0x490, 0x491})) \<and>
   (hasCyr q \<longrightarrow>
      (\<forall>i j. i < j \<and> j < length (sortJS (compareItems (hasCyr q)) items) \<and>
             item_source (sortJS (compareItems (hasCyr q)) items ! i) = str ''gutenberg'' \<longrightarrow>
             item_source (sortJS (compareItems (hasCyr q)) items ! j) \<noteq> str ''wsrc-ru'' \<and>
             item_source (sortJS (compareItems (hasCyr q)) items ! j) \<noteq> str ''wsrc-ua'')) \<and>
   (\<not> hasCyr q \<longrightarrow>
      (\<forall>i j. i < j \<and> j < length (sortJS (compareItems (hasCyr q)) items) \<and>
             item_source (sortJS (compareItems (hasCyr q)) items ! j) = str ''gutenberg'' \<longrightarrow>
             item_source (sortJS (compareItems (hasCyr q)) items ! i) = str ''gutenberg'')) \<and>
   (\<forall>k. filter (\<lambda>x. weight (hasCyr q) x = k) (sortJS (compareItems (hasCyr q)) items)
         = filter (\<lambda>x. weight (hasCyr q) x = k) items) \<and>
   length (sortJS (compareItems (hasCyr q)) items) = length items \<and>
   set (sortJS (compareItems (hasCyr q)) items) = set items"
proof -
  let ?r = "sortJS (compareItems (hasCyr q)) items"
  have srt: "sorted_wrt (\<lambda>a b. weight (hasCyr q) a \<le> weight (hasCyr q) b) ?r"
    unfolding compareItems_weight by (rule sorted_sortJS)
  have le: "weight (hasCyr q) (?r ! i) \<le> weight (hasCyr q) (?r ! j)" if "i < j" "j < length ?r" for i j
    using srt that by (simp add: sorted_wrt_iff_nth_less)
  have one: "item_source (?r ! j) \<noteq> str ''wsrc-ru'' \<and> item_source (?r ! j) \<noteq> str ''wsrc-ua''"
    if "hasCyr q" "i < j" "j < length ?r" "item_source (?r ! i) = str ''gutenberg''" for i j
  proof -
    have "weight (hasCyr q) (?r ! i) = 2"
      using that(1,4) sources_distinct by (simp add: weight_def)
    with le [OF that(2,3)] have "2 \<le> weight (hasCyr q) (?r ! j)" by simp
    then show ?thesis using that(1) sources_distinct by (auto simp: weight_def split: if_splits)
  qed
  have two: "item_source (?r ! i) = str ''gutenberg''"
    if "\<not> hasCyr q" "i < j" "j < length ?r" "item_source (?r ! j) = str ''gutenberg''" for i j
  proof -
    have "weight (hasCyr q) (?r ! j) = 0"
      using that(1,4) by (simp add: weight_def)
    with le [OF that(2,3)] have "weight (hasCyr q) (?r ! i) \<le> 0" by simp
    then show ?thesis using that(1) by (auto simp: weight_def split: if_splits)
  qed
  have three: "filter (\<lambda>x. weight (hasCyr q) x = k) ?r = filter (\<lambda>x. weight (hasCyr q) x = k) items" for k
    unfolding compareItems_weight by (rule filter_sortJS)
  have zero: "hasCyr q \<longleftrightarrow>
      (\<exists>c \<in> set q. (0x410 \<le> unat c \<and> unat c \<le> 0x44F) \<or>
         unat c \<in> {0x401, 0x451, 0x406, 0x456, 0x407, 0x457, 0x404, 0x454, 0x490, 0x491})"
    unfolding hasCyr_def list_ex_iff isCyrillicLetter_class ..
  have rest: "(hasCyr q \<longrightarrow>
      (\<forall>i j. i < j \<and> j < length ?r \<and> item_source (?r ! i) = str ''gutenberg'' \<longrightarrow>
             item_source (?r ! j) \<noteq> str ''wsrc-ru'' \<and> item_source (?r ! j) \<noteq> str ''wsrc-ua'')) \<and>
   (\<not> hasCyr q \<longrightarrow>
      (\<forall>i j. i < j \<and> j < length ?r \<and> item_source (?r ! j) = str ''gutenberg'' \<longrightarrow>
             item_source (?r ! i) = str ''gutenberg'')) \<and>
   (\<forall>k. filter (\<lambda>x. weight (hasCyr q) x = k) ?r = filter (\<lambda>x. weight (hasCyr q) x = k) items) \<and>
   length ?r = length items \<and> set ?r = set items"
    using one two three by (simp add: length_sortJS set_sortJS) blast
  from zero rest show ?thesis by (rule conjI)
qed

theorem sortJS_compareItems_order_witness:
  "hasCyr queryTolstoj \<and>
   sortJS (compareItems (hasCyr queryTolstoj)) sampleItems =
     [sampleItem (str ''wsrc-ru'') (str ''A''), sampleItem (str ''wsrc-ua'') (str ''B''),
      sampleItem (str ''wsrc-ru'') (str ''C''), sampleItem (str ''gutenberg'') (str ''1''),
      sampleItem (str ''gutenberg'') (str ''2'')] \<and>
   item_source (sortJS (compareItems (hasCyr queryTolstoj)) sampleItems ! 4) \<noteq> str ''wsrc-ru'' \<and>
   \<not> hasCyr (str ''tolstoy'') \<and>
   sortJS (compareItems (hasCyr (str ''tolstoy''))) sampleItems =
     [sampleItem (str ''gutenberg'') (str ''1''), sampleItem (str ''gutenberg'') (str ''2''),
      sampleItem (str ''wsrc-ru'') (str ''A''), sampleItem (str ''wsrc-ua'') (str ''B''),
      sampleItem (str ''wsrc-ru'') (str ''C'')] \<and>
   item_source (sortJS (compareItems (hasCyr (str ''tolstoy''))) sampleItems ! 0) = str ''gutenberg''"
proof -
  let ?r1 = "sortJS (compareItems (hasCyr queryTolstoj)) sampleItems"
  let ?r2 = "sortJS (compareItems (hasCyr (str ''tolstoy''))) sampleItems"
  have c1: "hasCyr queryTolstoj"
    by (simp add: hasCyr_def queryTolstoj_def isCyrillicLetter_def)
  have c2: "\<not> hasCyr (str ''tolstoy'')"
    by (simp add: hasCyr_def str_def isCyrillicLetter_def)
  have s1: "?r1 =
     [sampleItem (str ''wsrc-ru'') (str ''A''), sampleItem (str ''wsrc-ua'') (str ''B''),
      sampleItem (str ''wsrc-ru'') (str ''C''), sampleItem (str ''gutenberg'') (str ''1''),
      sampleItem (str ''gutenberg'') (str ''2'')]"
    using c1 by (simp add: sort_eval)
  have s2: "?r2 =
     [sampleItem (str ''gutenberg'') (str ''1''), sampleItem (str ''gutenberg'') (str ''2''),
      sampleItem (str ''wsrc-ru'') (str ''A''), sampleItem (str ''wsrc-ua'') (str ''B''),
      sampleItem (str ''wsrc-ru'') (str ''C'')]"
    using c2 by (simp add: sort_eval)
  have g3: "(3::nat) < 4 \<and> 4 < length ?r1 \<and> item_source (?r1 ! 3) = str ''gutenberg''"
    unfolding s1 by (simp add: sampleItem_def)
  have g1: "(0::nat) < 1 \<and> 1 < length ?r2 \<and> item_source (?r2 ! 1) = str ''gutenberg''"
    unfolding s2 by (simp add: sampleItem_def)
  from sortJS_compareItems_order [of queryTolstoj sampleItems, THEN conjunct2] c1
  have "\<forall>i j. i < j \<and> j < length ?r1 \<and> item_source (?r1 ! i) = str ''gutenberg'' \<longrightarrow>
             item_source (?r1 ! j) \<noteq> str ''wsrc-ru'' \<and> item_source (?r1 ! j) \<noteq> str ''wsrc-ua''"
    by blast
  with g3 have w1: "item_source (?r1 ! 4) \<noteq> str ''wsrc-ru''"
    by blast
  from sortJS_compareItems_order [of "str ''tolstoy''" sampleItems, THEN conjunct2] c2
  have "\<forall>i j. i < j \<and> j < length ?r2 \<and> item_source (?r2 ! j) = str ''gutenberg'' \<longrightarrow>
             item_source (?r2 ! i) = str ''gutenberg''"
    by blast
  with g1 have w2: "item_source (?r2 ! 0) = str ''gutenberg''"
    by blast
  from c1 c2 s1 s2 w1 w2 show ?thesis by blast
qed

text \<open>
  C5, as stated, fails for the sequential handler of \<open>part_001\<close>: the catalog search is
  awaited outside the inner \<open>try\<close>, so when it fails while the Standard Ebooks search
  succeeds with one item, the whole call fails with status 500 and the item is lost.
\<close>

theorem searchHandler_isolation_counterexample:
  "searchHandlerSequential (\<lambda>q p. Inl FetchFailed)
     (\<lambda>q p. Inr ([sampleItem (str ''standardebooks'') (str ''Emma'')], False))
     (str ''emma'') (str ''1'')
   = Json500 FetchFailed"
  by (simp add: searchHandlerSequential_def trim_def isWhiteSpace_def str_def Let_def)

text \<open>
  C5, amended. In the handler of the multi-source server (\<open>Promise.allSettled\<close>), for every
  upstream and every non-empty query, whichever of the three adapters fail: the handler
  answers with status 200; its items are the items of the fulfilled adapters, in catalog,
  Russian wiki, Ukrainian wiki order and then sorted, so as a set exactly the items of the
  adapters that succeeded; a rejected adapter adds no item and no \<open>hasMore\<close>; the \<open>hasMore\<close>
  of the answer is the disjunction of the \<open>hasMore\<close> of the fulfilled adapters. In the
  sequential handler of \<open>part_001\<close> only the Standard Ebooks adapter is isolated: when the
  catalog adapter fails the call fails with status 500 and its error, and when it succeeds
  the answer holds its items, followed by those of Standard Ebooks if that adapter succeeded,
  with the disjunction of the \<open>hasMore\<close> of the adapters that succeeded. (With an empty query
  no adapter is called: see C9.)
\<close>

theorem searchHandler_isolation:
  assumes "trim qParam \<noteq> []"
  shows "searchHandler env qParam pageParam =
     Json200
       \<lparr> result_page = safeInt pageParam 1,
         result_hasMore =
           (fulfilledMore (searchGutenberg env (trim qParam) (safeInt pageParam 1)) \<or>
            fulfilledMore (searchWikisource env WS_RU (trim qParam) (safeInt pageParam 1) (str ''wsrc-ru'')) \<or>
            fulfilledMore (searchWikisource env WS_UA (trim qParam) (safeInt pageParam 1) (str ''wsrc-ua''))),
         result_items =
           sortJS (compareItems (hasCyr (trim qParam)))
             (fulfilledItems (searchGutenberg env (trim qParam) (safeInt pageParam 1)) @
              fulfilledItems (searchWikisource env WS_RU (trim qParam) (safeInt pageParam 1) (str ''wsrc-ru'')) @
              fulfilledItems (searchWikisource env WS_UA (trim qParam) (safeInt pageParam 1) (str ''wsrc-ua''))) \<rparr> \<and>
   set (sortJS (compareItems (hasCyr (trim qParam)))
             (fulfilledItems (searchGutenberg env (trim qParam) (safeInt pageParam 1)) @
              fulfilledItems (searchWikisource env WS_RU (trim qParam) (safeInt pageParam 1) (str ''wsrc-ru'')) @
              fulfilledItems (searchWikisource env WS_UA (trim qParam) (safeInt pageParam 1) (str ''wsrc-ua''))))
     = set (fulfilledItems (searchGutenberg env (trim qParam) (safeInt pageParam 1))) \<union>
       set (fulfilledItems (searchWikisource env WS_RU (trim qParam) (safeInt pageParam 1) (str ''wsrc-ru''))) \<union>
       set (fulfilledItems (searchWikisource env WS_UA (trim qParam) (safeInt pageParam 1) (str ''wsrc-ua''))) \<and>
   fulfilledItems (Inl e) = [] \<and> fulfilledMore (Inl e) = False \<and>
   (\<forall>err. gutenberg (trim qParam) (clampInt pageParam 1 1 999) = Inl err \<longrightarrow>
      searchHandlerSequential gutenberg standardEbooks qParam pageParam = Json500 err) \<and>
   (\<forall>gItems gMore. gutenberg (trim qParam) (clampInt pageParam 1 1 999) = Inr (gItems, gMore) \<longrightarrow>
      searchHandlerSequential gutenberg standardEbooks qParam pageParam =
        Json200
          \<lparr> result_page = clampInt pageParam 1 1 999,
            result_hasMore =
              (gMore \<or> fulfilledMore (standardEbooks (trim qParam) (clampInt pageParam 1 1 999))),
            result_items =
              gItems @ fulfilledItems (standardEbooks (trim qParam) (clampInt pageParam 1 1 999)) \<rparr>)"
proof (intro conjI)
  show "searchHandler env qParam pageParam =
     Json200
       \<lparr> result_page = safeInt pageParam 1,
         result_hasMore =
           (fulfilledMore (searchGutenberg env (trim qParam) (safeInt pageParam 1)) \<or>
            fulfilledMore (searchWikisource env WS_RU (trim qParam) (safeInt pageParam 1) (str ''wsrc-ru'')) \<or>
            fulfilledMore (searchWikisource env WS_UA (trim qParam) (safeInt pageParam 1) (str ''wsrc-ua''))),
         result_items =
           sortJS (compareItems (hasCyr (trim qParam)))
             (fulfilledItems (searchGutenberg env (trim qParam) (safeInt pageParam 1)) @
              fulfilledItems (searchWikisource env WS_RU (trim qParam) (safeInt pageParam 1) (str ''wsrc-ru'')) @
              fulfilledItems (searchWikisource env WS_UA (trim qParam) (safeInt pageParam 1) (str ''wsrc-ua''))) \<rparr>"
    using assms unfolding searchHandler_def Let_def collect_three by simp
next
  show "set (sortJS (compareItems (hasCyr (trim qParam)))
             (fulfilledItems (searchGutenberg env (trim qParam) (safeInt pageParam 1)) @
              fulfilledItems (searchWikisource env WS_RU (trim qParam) (safeInt pageParam 1) (str ''wsrc-ru'')) @
              fulfilledItems (searchWikisource env WS_UA (trim qParam) (safeInt pageParam 1) (str ''wsrc-ua''))))
     = set (fulfilledItems (searchGutenberg env (trim qParam) (safeInt pageParam 1))) \<union>
       set (fulfilledItems (searchWikisource env WS_RU (trim qParam) (safeInt pageParam 1) (str ''wsrc-ru''))) \<union>
       set (fulfilledItems (searchWikisource env WS_UA (trim qParam) (safeInt pageParam 1) (str ''wsrc-ua'')))"
    by (simp add: set_sortJS Un_assoc)
next
  show "fulfilledItems (Inl e) = []"
    by (simp add: fulfilledItems_def)
next
  show "fulfilledMore (Inl e) = False"
    by (simp add: fulfilledMore_def)
next
  show "\<forall>err. gutenberg (trim qParam) (clampInt pageParam 1 1 999) = Inl err \<longrightarrow>
      searchHandlerSequential gutenberg standardEbooks qParam pageParam = Json500 err"
    using assms by (simp add: searchHandlerSequential_unguarded)
next
  show "\<forall>gItems gMore. gutenberg (trim qParam) (clampInt pageParam 1 1 999) = Inr (gItems, gMore) \<longrightarrow>
      searchHandlerSequential gutenberg standardEbooks qParam pageParam =
        Json200
          \<lparr> result_page = clampInt pageParam 1 1 999,
            result_hasMore =
              (gMore \<or> fulfilledMore (standardEbooks (trim qParam) (clampInt pageParam 1 1 999))),
            result_items =
              gItems @ fulfilledItems (standardEbooks (trim qParam) (clampInt pageParam 1 1 999)) \<rparr>"
    using assms by (simp add: searchHandlerSequential_guarded)
qed

theorem searchHandler_isolation_witness:
  "trim (str ''tolstoy'') \<noteq> [] \<and>
   searchGutenberg partialUpstream (str ''tolstoy'') 1 = Inl UpstreamRejected \<and>
   searchWikisource partialUpstream WS_UA (str ''tolstoy'') 1 (str ''wsrc-ua'') = Inl FetchFailed \<and>
   searchHandler partialUpstream (str ''tolstoy'') (str ''undefined'') =
     Json200
       \<lparr> result_page = 1, result_hasMore = True,
         result_items =
           [\<lparr> item_id = str ''wsrc-ru:Anna%20Karenina'', item_title = Some (str ''Anna Karenina''),
               item_author = [], item_lang = str ''ru'', item_source = str ''wsrc-ru'',
               item_formats = [str ''text/plain''] \<rparr>,
            \<lparr> item_id = str ''wsrc-ru:Resurrection'', item_title = Some (str ''Resurrection''),
               item_author = [], item_lang = str ''ru'', item_source = str ''wsrc-ru'',
               item_formats = [str ''text/plain''] \<rparr>] \<rparr> \<and>
   searchHandlerSequential (\<lambda>q p. Inl UpstreamRejected)
     (\<lambda>q p. Inr ([sampleItem (str ''standardebooks'') (str ''B'')], True))
     (str ''tolstoy'') (str ''3'')
   = Json500 UpstreamRejected \<and>
   searchHandlerSequential (\<lambda>q p. Inr ([sampleItem (str ''gutenberg'') (str ''1'')], False))
     (\<lambda>q p. Inl FetchFailed) (str ''tolstoy'') (str ''3'')
   = Json200 \<lparr> result_page = 3, result_hasMore = False,
               result_items = [sampleItem (str ''gutenberg'') (str ''1'')] \<rparr>"
proof -
  let ?a = "\<lparr> item_id = str ''wsrc-ru:Anna%20Karenina'', item_title = Some (str ''Anna Karenina''),
               item_author = [], item_lang = str ''ru'', item_source = str ''wsrc-ru'',
               item_formats = [str ''text/plain''] \<rparr>"
  let ?b = "\<lparr> item_id = str ''wsrc-ru:Resurrection'', item_title = Some (str ''Resurrection''),
               item_author = [], item_lang = str ''ru'', item_source = str ''wsrc-ru'',
               item_formats = [str ''text/plain''] \<rparr>"
  let ?g1 = "(\<lambda>q p. Inl UpstreamRejected) :: jsstring \<Rightarrow> int \<Rightarrow> error + item list \<times> bool"
  let ?s1 = "(\<lambda>q p. Inr ([sampleItem (str ''standardebooks'') (str ''B'')], True))
               :: jsstring \<Rightarrow> int \<Rightarrow> error + item list \<times> bool"
  let ?g2 = "(\<lambda>q p. Inr ([sampleItem (str ''gutenberg'') (str ''1'')], False))
               :: jsstring \<Rightarrow> int \<Rightarrow> error + item list \<times> bool"
  let ?s2 = "(\<lambda>q p. Inl FetchFailed) :: jsstring \<Rightarrow> int \<Rightarrow> error + item list \<times> bool"
  have t: "trim (str ''tolstoy'') = str ''tolstoy''"
    by (simp add: trim_def isWhiteSpace_def str_def)
  then have ne: "trim (str ''tolstoy'') \<noteq> []"
    by (simp add: str_def)
  have api: "WS_UA \<noteq> WS_RU"
    by (simp add: WS_RU_def WS_UA_def str_def)
  have enc: "encodeURIComponent (str ''tolstoy'') = Some (str ''tolstoy'')"
    "encodeURIComponent (str ''Anna Karenina'') = Some (str ''Anna%20Karenina'')"
    "encodeURIComponent (str ''Resurrection'') = Some (str ''Resurrection'')"
    by (simp_all add: uri_eval)
  have lit: "str ''wsrc-ru:'' @ str ''Anna%20Karenina'' = str ''wsrc-ru:Anna%20Karenina''"
    "str ''wsrc-ru:'' @ str ''Resurrection'' = str ''wsrc-ru:Resurrection''"
    "str ''wsrc-ru'' \<noteq> str ''gutenberg''" "str ''wsrc-ua'' \<noteq> str ''gutenberg''"
    "str ''wsrc-ru'' \<noteq> str ''wsrc-ua''" "str ''wsrc-ua'' \<noteq> str ''wsrc-ru''"
    by (simp_all add: str_def)
  have g: "searchGutenberg partialUpstream (str ''tolstoy'') 1 = Inl UpstreamRejected"
    using enc(1) by (simp add: search_eval)
  have ua: "searchWikisource partialUpstream WS_UA (str ''tolstoy'') 1 (str ''wsrc-ua'') = Inl FetchFailed"
    using enc(1) api by (simp add: search_eval Let_def)
  have ru: "searchWikisource partialUpstream WS_RU (str ''tolstoy'') 1 (str ''wsrc-ru'') = Inr ([?a, ?b], True)"
    using enc lit by (simp add: search_eval roundDouble_small Let_def)
  have nc: "\<not> hasCyr (str ''tolstoy'')"
    by (simp add: hasCyr_def str_def isCyrillicLetter_def)
  have srt: "sortJS (compareItems False) [?a, ?b] = [?a, ?b]"
    using lit by (simp add: compareItems_def weight_def)
  have p: "safeInt (str ''undefined'') 1 = 1"
    by (simp add: safeInt_def parseInt_undefined)
  have c: "clampInt (str ''3'') 1 1 999 = 3"
    by (simp add: clampInt_def parseInt_three)
  from searchHandler_isolation [OF ne, where env = partialUpstream and pageParam = "str ''undefined''",
      THEN conjunct1]
  have one: "searchHandler partialUpstream (str ''tolstoy'') (str ''undefined'') =
     Json200 \<lparr> result_page = 1, result_hasMore = True, result_items = [?a, ?b] \<rparr>"
    unfolding t p g ua ru using nc srt by (simp add: fulfilledItems_def fulfilledMore_def)
  from searchHandler_isolation [OF ne, where gutenberg = ?g1 and pageParam = "str ''3''"
      and standardEbooks = ?s1, THEN conjunct2, THEN conjunct2, THEN conjunct2, THEN conjunct2,
      THEN conjunct1, rule_format, of UpstreamRejected]
  have two: "searchHandlerSequential ?g1 ?s1 (str ''tolstoy'') (str ''3'') = Json500 UpstreamRejected"
    by simp
  from searchHandler_isolation [OF ne, where gutenberg = ?g2 and pageParam = "str ''3''"
      and standardEbooks = ?s2, THEN conjunct2, THEN conjunct2, THEN conjunct2, THEN conjunct2,
      THEN conjunct2, rule_format, of "[sampleItem (str ''gutenberg'') (str ''1'')]" False]
  have three: "searchHandlerSequential ?g2 ?s2 (str ''tolstoy'') (str ''3'') =
     Json200 \<lparr> result_page = 3, result_hasMore = False,
               result_items = [sampleItem (str ''gutenberg'') (str ''1'')] \<rparr>"
    unfolding c by (simp add: fulfilledItems_def fulfilledMore_def)
  from ne g ua one two three show ?thesis by blast
qed




end
